theory Spec2Isabelle
  imports Complex_Main "HOL-Library.AList"
begin

section \<open>Numbers, exceptions and dictionaries of the Python program\<close>

text \<open>
  The program is two Python modules: \<^verbatim>\<open>my_model_selectors.py\<close> (the four model
  selectors) and \<^verbatim>\<open>my_recognizer.py\<close> (the recogniser). Both drive a hidden Markov
  model library (hmmlearn's \<^verbatim>\<open>GaussianHMM\<close>) whose training and scoring routines are
  black boxes; here they are parameters of every definition.

  A log-likelihood returned by \<^verbatim>\<open>model.score\<close> is a finite number, a \<^typ>\<open>real\<close>;
  rounding is not modelled. The values the program itself can build from finite
  scores (\<^verbatim>\<open>float('inf')\<close>, \<^verbatim>\<open>float('-inf')\<close>, and what numpy returns for a
  division by zero) are the constructors of \<open>pyfloat\<close>.
\<close>

datatype pyfloat = Fin real | PosInf | NegInf | NaN

text \<open>The comparisons \<^verbatim>\<open>a < b\<close> and \<^verbatim>\<open>a > b\<close> of two floats; a NaN compares false.\<close>

fun flt :: "pyfloat \<Rightarrow> pyfloat \<Rightarrow> bool" where
  "flt NaN _ = False"
| "flt _ NaN = False"
| "flt (Fin a) (Fin b) = (a < b)"
| "flt (Fin a) PosInf = True"
| "flt (Fin a) NegInf = False"
| "flt PosInf _ = False"
| "flt NegInf (Fin b) = True"
| "flt NegInf PosInf = True"
| "flt NegInf NegInf = False"

definition fgt :: "pyfloat \<Rightarrow> pyfloat \<Rightarrow> bool" where
  "fgt a b = flt b a"

text \<open>\<^verbatim>\<open>a - b\<close> for a finite \<open>a\<close>.\<close>

fun fsub :: "real \<Rightarrow> pyfloat \<Rightarrow> pyfloat" where
  "fsub a (Fin b) = Fin (a - b)"
| "fsub a PosInf = NegInf"
| "fsub a NegInf = PosInf"
| "fsub a NaN = NaN"

datatype exn = ValueError | IndexError | KeyError | ZeroDivisionError | FitError | ScoreError

text \<open>
  A running sum that starts as the Python integer \<^verbatim>\<open>0\<close> and becomes a numpy float
  with the first score added to it (\<^verbatim>\<open>s = 0; s += logL\<close>).
\<close>

datatype pynum = PyInt int | NpFloat real

fun iadd :: "pynum \<Rightarrow> real \<Rightarrow> pynum" where
  "iadd (PyInt i) x = NpFloat (real_of_int i + x)"
| "iadd (NpFloat s) x = NpFloat (s + x)"

text \<open>
  \<^verbatim>\<open>s / d\<close> for a Python integer \<open>d\<close>: an integer numerator over zero raises
  ZeroDivisionError; a numpy float over zero is an infinity or NaN, with a warning only.
\<close>

fun truediv :: "pynum \<Rightarrow> int \<Rightarrow> exn + pyfloat" where
  "truediv (PyInt i) d =
     (if d = 0 then Inl ZeroDivisionError else Inr (Fin (real_of_int i / real_of_int d)))"
| "truediv (NpFloat s) d =
     (if d = 0 then Inr (if 0 < s then PosInf else if s < 0 then NegInf else NaN)
      else Inr (Fin (s / real_of_int d)))"

text \<open>
  A \<^verbatim>\<open>dict\<close> is an association list in iteration order; its keys are distinct.
  \<^verbatim>\<open>d[k]\<close> raises KeyError on a missing key, \<^verbatim>\<open>d[k] = v\<close> is \<^const>\<open>AList.update\<close>
  (in place for a key that is there, at the end otherwise).
\<close>

type_synonym ('k, 'v) dict = "('k \<times> 'v) list"

definition getitem :: "('k, 'v) dict \<Rightarrow> 'k \<Rightarrow> exn + 'v" where
  "getitem d k = (case map_of d k of None \<Rightarrow> Inl KeyError | Some v \<Rightarrow> Inr v)"

definition keys :: "('k, 'v) dict \<Rightarrow> 'k list" where
  "keys d = map fst d"

type_synonym frame = "real list"
type_synonym features = "frame list"

section \<open>The hidden Markov model library\<close>

text \<open>
  \<open>fit L g n fs ls\<close> is \<^verbatim>\<open>GaussianHMM(n_components=n, covariance_type="diag",
  n_iter=1000).fit(fs, ls)\<close> run with the random generator in state \<open>g\<close>: the trained
  model, or \<open>None\<close> when training raises, and the generator's state afterwards.
  \<open>score L m fs ls\<close> is \<^verbatim>\<open>m.score(fs, ls)\<close>: the log-likelihood, or \<open>None\<close> when
  scoring raises. \<open>seeded L s\<close> is the fresh generator \<^verbatim>\<open>RandomState(s)\<close>.
\<close>

record ('m, 'g) hmm_lib =
  fit :: "'g \<Rightarrow> int \<Rightarrow> features \<Rightarrow> nat list \<Rightarrow> 'm option \<times> 'g"
  score :: "'m \<Rightarrow> features \<Rightarrow> nat list \<Rightarrow> real option"
  seeded :: "int \<Rightarrow> 'g"

text \<open>
  What the process shares between calls: numpy's global random generator, and
  the trainings run so far (the state count and the data of each), kept to
  count them.
\<close>

record 'g world =
  rng :: 'g
  fits :: "(int \<times> features \<times> nat list) list"

text \<open>
  Training with \<^verbatim>\<open>random_state=s\<close> draws from a generator of its own; with no
  \<^verbatim>\<open>random_state\<close> (the default, \<^verbatim>\<open>None\<close>) it draws from the global generator and
  advances it.
\<close>

definition GaussianHMM_fit ::
  "('m, 'g) hmm_lib \<Rightarrow> int option \<Rightarrow> int \<Rightarrow> features \<Rightarrow> nat list \<Rightarrow> 'g world
     \<Rightarrow> (exn + 'm) \<times> 'g world" where
  "GaussianHMM_fit L rs n fs ls w =
     (case rs of
        None \<Rightarrow>
          (case fit L (rng w) n fs ls of
             (r, g') \<Rightarrow>
               ((case r of None \<Rightarrow> Inl FitError | Some m \<Rightarrow> Inr m),
                \<lparr>rng = g', fits = fits w @ [(n, fs, ls)]\<rparr>))
      | Some s \<Rightarrow>
          (case fit L (seeded L s) n fs ls of
             (r, g') \<Rightarrow>
               ((case r of None \<Rightarrow> Inl FitError | Some m \<Rightarrow> Inr m),
                \<lparr>rng = rng w, fits = fits w @ [(n, fs, ls)]\<rparr>)))"

definition model_score :: "('m, 'g) hmm_lib \<Rightarrow> 'm \<Rightarrow> features \<Rightarrow> nat list \<Rightarrow> exn + real" where
  "model_score L m fs ls = (case score L m fs ls of None \<Rightarrow> Inl ScoreError | Some l \<Rightarrow> Inr l)"

section \<open>ModelSelector\<close>

record selector =
  words :: "(string, features list) dict"
  hwords :: "(string, features \<times> nat list) dict"
  sequences :: "features list"
  X :: features
  lengths :: "nat list"
  this_word :: string
  n_constant :: int
  min_n_components :: int
  max_n_components :: int
  random_state :: int
  verbose :: bool

text \<open>\<^verbatim>\<open>ModelSelector.__init__\<close>: both dictionaries are read at \<^verbatim>\<open>this_word\<close>.\<close>

definition ModelSelector_init ::
  "(string, features list) dict \<Rightarrow> (string, features \<times> nat list) dict \<Rightarrow> string
     \<Rightarrow> int \<Rightarrow> int \<Rightarrow> int \<Rightarrow> int \<Rightarrow> bool \<Rightarrow> exn + selector" where
  "ModelSelector_init all_word_sequences all_word_Xlengths word nc mn mx rs vb =
     (case getitem all_word_sequences word of
        Inl e \<Rightarrow> Inl e
      | Inr seqs \<Rightarrow>
          (case getitem all_word_Xlengths word of
             Inl e \<Rightarrow> Inl e
           | Inr (fs, ls) \<Rightarrow>
               Inr \<lparr>words = all_word_sequences, hwords = all_word_Xlengths,
                    sequences = seqs, X = fs, lengths = ls, this_word = word,
                    n_constant = nc, min_n_components = mn, max_n_components = mx,
                    random_state = rs, verbose = vb\<rparr>))"

text \<open>
  \<^verbatim>\<open>base_model\<close>: one training, seeded with \<^verbatim>\<open>self.random_state\<close>; any exception
  becomes \<^verbatim>\<open>None\<close>. The messages printed when \<^verbatim>\<open>verbose\<close> is set are left out.
\<close>

definition base_model ::
  "('m, 'g) hmm_lib \<Rightarrow> selector \<Rightarrow> int \<Rightarrow> 'g world \<Rightarrow> 'm option \<times> 'g world" where
  "base_model L self num_states w =
     (case GaussianHMM_fit L (Some (random_state self)) num_states (X self) (lengths self) w of
        (Inr hmm_model, w') \<Rightarrow> (Some hmm_model, w')
      | (Inl e, w') \<Rightarrow> (None, w'))"

subsection \<open>SelectorConstant\<close>

definition SelectorConstant_select ::
  "('m, 'g) hmm_lib \<Rightarrow> selector \<Rightarrow> 'g world \<Rightarrow> 'm option \<times> 'g world" where
  "SelectorConstant_select L self w =
     (let best_num_components = n_constant self in base_model L self best_num_components w)"

subsection \<open>SelectorBIC\<close>

text \<open>
  The body of the \<^verbatim>\<open>try\<close> for one state count, up to the score \<^verbatim>\<open>bic\<close>: any
  exception (training, scoring, \<^verbatim>\<open>self.X[0]\<close> on empty data) ends it.
\<close>

definition bic_try ::
  "('m, 'g) hmm_lib \<Rightarrow> selector \<Rightarrow> int \<Rightarrow> 'g world \<Rightarrow> (exn + 'm \<times> real) \<times> 'g world" where
  "bic_try L self n_components w =
     (case GaussianHMM_fit L None n_components (X self) (lengths self) w of
        (Inl e, w1) \<Rightarrow> (Inl e, w1)
      | (Inr model, w1) \<Rightarrow>
          (case model_score L model (X self) (lengths self) of
             Inl e \<Rightarrow> (Inl e, w1)
           | Inr logL \<Rightarrow>
               (case X self of
                  [] \<Rightarrow> (Inl IndexError, w1)
                | row0 # _ \<Rightarrow>
                    (let n_features = int (length row0);
                         p = n_components ^ 2 + 2 * n_components * n_features - 1;
                         N = length (X self);
                         bic = - 2 * logL + real_of_int p * ln (real N)
                     in (Inr (model, bic), w1)))))"

fun bic_loop ::
  "('m, 'g) hmm_lib \<Rightarrow> selector \<Rightarrow> int list \<Rightarrow> pyfloat \<times> 'm option \<times> 'g world
     \<Rightarrow> pyfloat \<times> 'm option \<times> 'g world" where
  "bic_loop L self [] st = st"
| "bic_loop L self (n_components # ns) (best_bic, best_model, w) =
     (case bic_try L self n_components w of
        (Inr (model, bic), w') \<Rightarrow>
          (if flt (Fin bic) best_bic then bic_loop L self ns (Fin bic, Some model, w')
           else bic_loop L self ns (best_bic, best_model, w'))
      | (Inl e, w') \<Rightarrow> bic_loop L self ns (best_bic, best_model, w'))"

definition SelectorBIC_select ::
  "('m, 'g) hmm_lib \<Rightarrow> selector \<Rightarrow> 'g world \<Rightarrow> 'm option \<times> 'g world" where
  "SelectorBIC_select L self w =
     (case bic_loop L self [min_n_components self .. max_n_components self] (PosInf, None, w) of
        (best_bic, best_model, w') \<Rightarrow> (best_model, w'))"

subsection \<open>SelectorDIC\<close>

text \<open>The inner loop over \<^verbatim>\<open>self.words\<close>, skipping \<^verbatim>\<open>this_word\<close>.\<close>

fun dic_others ::
  "('m, 'g) hmm_lib \<Rightarrow> selector \<Rightarrow> 'm \<Rightarrow> string list \<Rightarrow> pynum \<Rightarrow> exn + pynum" where
  "dic_others L self model [] other_logL_sum = Inr other_logL_sum"
| "dic_others L self model (other_word # rest) other_logL_sum =
     (if other_word = this_word self then dic_others L self model rest other_logL_sum
      else
        (case getitem (hwords self) other_word of
           Inl e \<Rightarrow> Inl e
         | Inr (other_X, other_lengths) \<Rightarrow>
             (case model_score L model other_X other_lengths of
                Inl e \<Rightarrow> Inl e
              | Inr other_logL \<Rightarrow>
                  dic_others L self model rest (iadd other_logL_sum other_logL))))"

definition dic_try ::
  "('m, 'g) hmm_lib \<Rightarrow> selector \<Rightarrow> int \<Rightarrow> int \<Rightarrow> 'g world
     \<Rightarrow> (exn + 'm \<times> pyfloat) \<times> 'g world" where
  "dic_try L self M n_components w =
     (case GaussianHMM_fit L None n_components (X self) (lengths self) w of
        (Inl e, w1) \<Rightarrow> (Inl e, w1)
      | (Inr model, w1) \<Rightarrow>
          (case model_score L model (X self) (lengths self) of
             Inl e \<Rightarrow> (Inl e, w1)
           | Inr logL \<Rightarrow>
               (case dic_others L self model (keys (words self)) (PyInt 0) of
                  Inl e \<Rightarrow> (Inl e, w1)
                | Inr other_logL_sum \<Rightarrow>
                    (case truediv other_logL_sum (M - 1) of
                       Inl e \<Rightarrow> (Inl e, w1)
                     | Inr q \<Rightarrow> (Inr (model, fsub logL q), w1)))))"

fun dic_loop ::
  "('m, 'g) hmm_lib \<Rightarrow> selector \<Rightarrow> int \<Rightarrow> int list \<Rightarrow> pyfloat \<times> 'm option \<times> 'g world
     \<Rightarrow> pyfloat \<times> 'm option \<times> 'g world" where
  "dic_loop L self M [] st = st"
| "dic_loop L self M (n_components # ns) (best_dic, best_model, w) =
     (case dic_try L self M n_components w of
        (Inr (model, dic), w') \<Rightarrow>
          (if fgt dic best_dic then dic_loop L self M ns (dic, Some model, w')
           else dic_loop L self M ns (best_dic, best_model, w'))
      | (Inl e, w') \<Rightarrow> dic_loop L self M ns (best_dic, best_model, w'))"

definition SelectorDIC_select ::
  "('m, 'g) hmm_lib \<Rightarrow> selector \<Rightarrow> 'g world \<Rightarrow> 'm option \<times> 'g world" where
  "SelectorDIC_select L self w =
     (let M = int (length (hwords self)) in
      case dic_loop L self M [min_n_components self .. max_n_components self] (NegInf, None, w) of
        (best_dic, best_model, w') \<Rightarrow> (best_model, w'))"

subsection \<open>SelectorCV\<close>

text \<open>
  scikit-learn's \<^verbatim>\<open>KFold(n_splits)\<close> without shuffling. The constructor raises
  ValueError unless \<^verbatim>\<open>n_splits\<close> is at least 2; \<^verbatim>\<open>split\<close> raises ValueError when
  there are fewer samples than folds, and otherwise cuts the indices
  \<open>0, ..., n - 1\<close> into consecutive test folds, the first \<open>n mod k\<close> of them one
  longer, each paired with the remaining indices as its training fold.
\<close>

definition KFold :: "int \<Rightarrow> exn + nat" where
  "KFold n_splits = (if n_splits \<le> 1 then Inl ValueError else Inr (nat n_splits))"

definition fold_sizes :: "nat \<Rightarrow> nat \<Rightarrow> nat list" where
  "fold_sizes n_splits n_samples =
     map (\<lambda>i. n_samples div n_splits + (if i < n_samples mod n_splits then 1 else 0))
       [0..<n_splits]"

fun test_folds :: "nat \<Rightarrow> nat list \<Rightarrow> nat list list" where
  "test_folds current [] = []"
| "test_folds current (fold_size # rest) =
     [current..<current + fold_size] # test_folds (current + fold_size) rest"

definition KFold_split :: "nat \<Rightarrow> nat \<Rightarrow> exn + (nat list \<times> nat list) list" where
  "KFold_split n_splits n_samples =
     (if n_samples < n_splits then Inl ValueError
      else Inr (map (\<lambda>test_index. (filter (\<lambda>i. i \<notin> set test_index) [0..<n_samples], test_index))
                 (test_folds 0 (fold_sizes n_splits n_samples))))"

text \<open>
  Modelled from the spec: \<^verbatim>\<open>combine_sequences\<close> of the module \<^verbatim>\<open>asl_utils\<close>, which is
  not among the sources. It concatenates the sequences at the given indices
  into one feature matrix and lists their lengths in the same order; an index
  out of range raises IndexError.
\<close>

definition combine_sequences :: "nat list \<Rightarrow> features list \<Rightarrow> exn + features \<times> nat list" where
  "combine_sequences split_index_list seqs =
     (if \<exists>idx \<in> set split_index_list. length seqs \<le> idx then Inl IndexError
      else (let sequences_fold = map (\<lambda>idx. seqs ! idx) split_index_list
            in Inr (concat sequences_fold, map length sequences_fold)))"

text \<open>The loop over the folds: train on the training fold, score on the held-out fold.\<close>

fun cv_folds ::
  "('m, 'g) hmm_lib \<Rightarrow> selector \<Rightarrow> int \<Rightarrow> (nat list \<times> nat list) list \<Rightarrow> pynum \<Rightarrow> 'g world
     \<Rightarrow> (exn + pynum) \<times> 'g world" where
  "cv_folds L self n_components [] logL_sum w = (Inr logL_sum, w)"
| "cv_folds L self n_components ((train_index, test_index) # rest) logL_sum w =
     (case combine_sequences train_index (sequences self) of
        Inl e \<Rightarrow> (Inl e, w)
      | Inr (X_train, lengths_train) \<Rightarrow>
          (case combine_sequences test_index (sequences self) of
             Inl e \<Rightarrow> (Inl e, w)
           | Inr (X_test, lengths_test) \<Rightarrow>
               (case GaussianHMM_fit L None n_components X_train lengths_train w of
                  (Inl e, w1) \<Rightarrow> (Inl e, w1)
                | (Inr model, w1) \<Rightarrow>
                    (case model_score L model X_test lengths_test of
                       Inl e \<Rightarrow> (Inl e, w1)
                     | Inr logL \<Rightarrow> cv_folds L self n_components rest (iadd logL_sum logL) w1))))"

text \<open>The body of the \<^verbatim>\<open>try\<close> up to \<^verbatim>\<open>logL_avg\<close>.\<close>

definition cv_try ::
  "('m, 'g) hmm_lib \<Rightarrow> selector \<Rightarrow> int \<Rightarrow> 'g world \<Rightarrow> (exn + pyfloat) \<times> 'g world" where
  "cv_try L self n_components w =
     (let split_n = min (int (length (sequences self))) 3 in
      case KFold split_n of
        Inl e \<Rightarrow> (Inl e, w)
      | Inr split_method \<Rightarrow>
          (case KFold_split split_method (length (sequences self)) of
             Inl e \<Rightarrow> (Inl e, w)
           | Inr folds \<Rightarrow>
               (case cv_folds L self n_components folds (PyInt 0) w of
                  (Inl e, w1) \<Rightarrow> (Inl e, w1)
                | (Inr logL_sum, w1) \<Rightarrow>
                    (case truediv logL_sum split_n of
                       Inl e \<Rightarrow> (Inl e, w1)
                     | Inr logL_avg \<Rightarrow> (Inr logL_avg, w1)))))"

text \<open>
  The sweep. On a new best average, \<^verbatim>\<open>best_cv\<close> is assigned first and the model
  is then trained on the whole data; when that training raises, the handler
  leaves \<^verbatim>\<open>best_model\<close> as it was.
\<close>

fun cv_loop ::
  "('m, 'g) hmm_lib \<Rightarrow> selector \<Rightarrow> int list \<Rightarrow> pyfloat \<times> 'm option \<times> 'g world
     \<Rightarrow> pyfloat \<times> 'm option \<times> 'g world" where
  "cv_loop L self [] st = st"
| "cv_loop L self (n_components # ns) (best_cv, best_model, w) =
     (case cv_try L self n_components w of
        (Inl e, w1) \<Rightarrow> cv_loop L self ns (best_cv, best_model, w1)
      | (Inr logL_avg, w1) \<Rightarrow>
          (if fgt logL_avg best_cv then
             (case GaussianHMM_fit L None n_components (X self) (lengths self) w1 of
                (Inl e, w2) \<Rightarrow> cv_loop L self ns (logL_avg, best_model, w2)
              | (Inr model, w2) \<Rightarrow> cv_loop L self ns (logL_avg, Some model, w2))
           else cv_loop L self ns (best_cv, best_model, w1)))"

definition SelectorCV_select ::
  "('m, 'g) hmm_lib \<Rightarrow> selector \<Rightarrow> 'g world \<Rightarrow> 'm option \<times> 'g world" where
  "SelectorCV_select L self w =
     (case cv_loop L self [min_n_components self .. max_n_components self] (NegInf, None, w) of
        (best_cv, best_model, w') \<Rightarrow> (best_model, w'))"

section \<open>The recogniser\<close>

text \<open>
  Modelled from the spec: the test set (\<^verbatim>\<open>SinglesData\<close> of the module \<^verbatim>\<open>asl_data\<close>,
  not among the sources) is an ordered sequence of items, each a pair of a
  feature matrix and its lengths.
\<close>

type_synonym SinglesData = "(features \<times> nat list) list"

definition num_items :: "SinglesData \<Rightarrow> nat" where
  "num_items test_set = length test_set"

definition get_item_Xlengths :: "SinglesData \<Rightarrow> nat \<Rightarrow> features \<times> nat list" where
  "get_item_Xlengths test_set i = test_set ! i"

text \<open>
  The loop over the words of \<^verbatim>\<open>models\<close> for one item: a word whose scoring raises
  is passed over.
\<close>

fun score_words ::
  "('m, 'g) hmm_lib \<Rightarrow> (string, 'm) dict \<Rightarrow> string list \<Rightarrow> features \<Rightarrow> nat list
     \<Rightarrow> (string, real) dict \<Rightarrow> (string, real) dict" where
  "score_words L models [] fs ls logLs = logLs"
| "score_words L models (word # rest) fs ls logLs =
     (case getitem models word of
        Inl e \<Rightarrow> score_words L models rest fs ls logLs
      | Inr m \<Rightarrow>
          (case model_score L m fs ls of
             Inl e \<Rightarrow> score_words L models rest fs ls logLs
           | Inr logL \<Rightarrow> score_words L models rest fs ls (AList.update word logL logLs)))"

text \<open>
  \<^verbatim>\<open>max(xs, key=k)\<close>: ValueError on an empty sequence; otherwise the first item
  of greatest key (an item replaces the running maximum only when its key is
  strictly greater).
\<close>

fun max_loop :: "('a \<Rightarrow> exn + real) \<Rightarrow> 'a list \<Rightarrow> 'a \<Rightarrow> real \<Rightarrow> exn + 'a" where
  "max_loop key [] maxitem maxval = Inr maxitem"
| "max_loop key (item # rest) maxitem maxval =
     (case key item of
        Inl e \<Rightarrow> Inl e
      | Inr val \<Rightarrow>
          (if maxval < val then max_loop key rest item val
           else max_loop key rest maxitem maxval))"

definition py_max :: "'a list \<Rightarrow> ('a \<Rightarrow> exn + real) \<Rightarrow> exn + 'a" where
  "py_max xs key =
     (case xs of
        [] \<Rightarrow> Inl ValueError
      | item # rest \<Rightarrow>
          (case key item of Inl e \<Rightarrow> Inl e | Inr val \<Rightarrow> max_loop key rest item val))"

text \<open>The list comprehension that builds \<^verbatim>\<open>guesses\<close>: the first exception ends it.\<close>

fun guess_all :: "(string, real) dict list \<Rightarrow> exn + string list" where
  "guess_all [] = Inr []"
| "guess_all (p # ps) =
     (case py_max (keys p) (\<lambda>x. getitem p x) of
        Inl e \<Rightarrow> Inl e
      | Inr g \<Rightarrow> (case guess_all ps of Inl e \<Rightarrow> Inl e | Inr gs \<Rightarrow> Inr (g # gs)))"

definition recognize ::
  "('m, 'g) hmm_lib \<Rightarrow> (string, 'm) dict \<Rightarrow> SinglesData
     \<Rightarrow> exn + (string, real) dict list \<times> string list" where
  "recognize L models test_set =
     (let probabilities =
            map (\<lambda>i. case get_item_Xlengths test_set i of
                        (fs, ls) \<Rightarrow> score_words L models (keys models) fs ls [])
              [0..<num_items test_set]
      in case guess_all probabilities of
           Inl e \<Rightarrow> Inl e
         | Inr guesses \<Rightarrow> Inr (probabilities, guesses))"

section \<open>What a sweep tries, and the criteria as the specification words them\<close>

text \<open>
  The candidates of a BIC sweep in order, each with the outcome of its \<^verbatim>\<open>try\<close>
  block; the shared state is threaded from one candidate to the next as the
  sweep threads it.
\<close>

fun bic_trials ::
  "('m, 'g) hmm_lib \<Rightarrow> selector \<Rightarrow> int list \<Rightarrow> 'g world \<Rightarrow> (int \<times> (exn + 'm \<times> real)) list" where
  "bic_trials L self [] w = []"
| "bic_trials L self (n # ns) w =
     (case bic_try L self n w of (r, w') \<Rightarrow> (n, r) # bic_trials L self ns w')"

text \<open>
  The specification's \<open>BIC(n) = -2 logL + p(n) ln N\<close> with
  \<open>p(n) = n\<^sup>2 + 2 n d - 1\<close>.
\<close>

definition BIC :: "real \<Rightarrow> int \<Rightarrow> nat \<Rightarrow> nat \<Rightarrow> real" where
  "BIC logL n d N = - 2 * logL + real_of_int (n\<^sup>2 + 2 * n * int d - 1) * ln (real N)"

text \<open>The candidates of a DIC sweep, likewise.\<close>

fun dic_trials ::
  "('m, 'g) hmm_lib \<Rightarrow> selector \<Rightarrow> int \<Rightarrow> int list \<Rightarrow> 'g world
     \<Rightarrow> (int \<times> (exn + 'm \<times> pyfloat)) list" where
  "dic_trials L self M [] w = []"
| "dic_trials L self M (n # ns) w =
     (case dic_try L self M n w of (r, w') \<Rightarrow> (n, r) # dic_trials L self M ns w')"

text \<open>The number a running sum stands for.\<close>

fun pyval :: "pynum \<Rightarrow> real" where
  "pyval (PyInt i) = real_of_int i"
| "pyval (NpFloat s) = s"

text \<open>
  The scores of a model on the concatenated features of every other word of
  \<^verbatim>\<open>self.words\<close>, in iteration order; \<open>None\<close> where the word has no features or the
  scoring raises.
\<close>

definition other_scores :: "('m, 'g) hmm_lib \<Rightarrow> selector \<Rightarrow> 'm \<Rightarrow> real option list" where
  "other_scores L self m =
     map (\<lambda>w. case map_of (hwords self) w of None \<Rightarrow> None | Some (fs, ls) \<Rightarrow> score L m fs ls)
       (filter (\<lambda>w. w \<noteq> this_word self) (keys (words self)))"

text \<open>
  The specification's \<open>DIC(n) = logL_self - (1 / (M - 1)) \<Sum> logL_other\<close>.
\<close>

definition DIC :: "real \<Rightarrow> real list \<Rightarrow> nat \<Rightarrow> real" where
  "DIC logL_self logL_other M = logL_self - (1 / (real M - 1)) * sum_list logL_other"

text \<open>
  The candidates of a cross-validation sweep in order, each with the outcome of
  its \<^verbatim>\<open>try\<close> block up to the average and, where the sweep went on to train on
  the whole data, the outcome of that training; the best average so far and
  the shared state are threaded as the sweep threads them.
\<close>

fun cv_trials ::
  "('m, 'g) hmm_lib \<Rightarrow> selector \<Rightarrow> int list \<Rightarrow> pyfloat \<times> 'g world
     \<Rightarrow> (int \<times> (exn + pyfloat) \<times> (exn + 'm) option) list" where
  "cv_trials L self [] st = []"
| "cv_trials L self (n # ns) (best_cv, w) =
     (case cv_try L self n w of
        (Inl e, w1) \<Rightarrow> (n, Inl e, None) # cv_trials L self ns (best_cv, w1)
      | (Inr logL_avg, w1) \<Rightarrow>
          (if fgt logL_avg best_cv then
             (case GaussianHMM_fit L None n (X self) (lengths self) w1 of
                (t, w2) \<Rightarrow> (n, Inr logL_avg, Some t) # cv_trials L self ns (logL_avg, w2))
           else (n, Inr logL_avg, None) # cv_trials L self ns (best_cv, w1)))"

text \<open>
  \<open>logL\<close> is a held-out score of the fold \<open>fd\<close> at \<open>n\<close> states: the score, on the
  sequences of the fold's test indices, of a model trained on the sequences of
  its training indices.
\<close>

definition held_out ::
  "('m, 'g) hmm_lib \<Rightarrow> selector \<Rightarrow> int \<Rightarrow> nat list \<times> nat list \<Rightarrow> real \<Rightarrow> bool" where
  "held_out L self n fd logL =
     (\<exists>g m X_train lengths_train X_test lengths_test.
        combine_sequences (fst fd) (sequences self) = Inr (X_train, lengths_train)
        \<and> combine_sequences (snd fd) (sequences self) = Inr (X_test, lengths_test)
        \<and> fst (fit L g n X_train lengths_train) = Some m
        \<and> score L m X_test lengths_test = Some logL)"

text \<open>
  What the recogniser records for one test item: the words of \<^verbatim>\<open>models\<close>, in
  iteration order, whose model scores the item, each with its log-likelihood.
\<close>

definition scored ::
  "('m, 'g) hmm_lib \<Rightarrow> (string, 'm) dict \<Rightarrow> features \<times> nat list \<Rightarrow> (string, real) dict" where
  "scored L models item =
     (case item of
        (fs, ls) \<Rightarrow>
          List.map_filter
            (\<lambda>word. case map_of models word of
                      None \<Rightarrow> None
                    | Some m \<Rightarrow> (case score L m fs ls of
                                  None \<Rightarrow> None
                                | Some logL \<Rightarrow> Some (word, logL)))
            (keys models))"

text \<open>
  \<open>g\<close> is the first key of greatest value in the table \<open>p\<close>: every earlier entry
  is strictly smaller, no later entry is greater.
\<close>

definition first_argmax :: "(string, real) dict \<Rightarrow> string \<Rightarrow> bool" where
  "first_argmax p g =
     (\<exists>pre v post. p = pre @ (g, v) # post \<and> (\<forall>q \<in> set pre. snd q < v) \<and> (\<forall>q \<in> set post. snd q \<le> v))"

section \<open>A small library and small inputs, for evaluation\<close>

text \<open>
  A stand-in for the library, small enough to evaluate. A model is the pair of
  the generator state it was trained from and its state count. Training fails
  with fewer than one state or with more states than frames; scoring fails on
  an empty matrix, on an empty frame and on fewer frames than the model has
  states, and otherwise prefers the model whose state count is the number of
  frames.
\<close>

definition toy_lib :: "(nat \<times> int, nat) hmm_lib" where
  "toy_lib =
     \<lparr>fit = (\<lambda>g n fs ls. (if 1 \<le> n \<and> n \<le> int (length fs) then Some (g, n) else None, Suc g)),
      score = (\<lambda>m fs ls. if fs = [] \<or> [] \<in> set fs \<or> int (length fs) < snd m then None
                          else Some (- 100 * (real_of_int (snd m) - real (length fs))\<^sup>2)),
      seeded = (\<lambda>s. nat s)\<rparr>"

definition w0 :: "nat world" where
  "w0 = \<lparr>rng = 0, fits = []\<rparr>"

text \<open>A vocabulary of the single word CAT, seen once.\<close>

definition one_sequence :: selector where
  "one_sequence =
     \<lparr>words = [(''CAT'', [[[1], [2]]])], hwords = [(''CAT'', ([[1], [2]], [2]))],
      sequences = [[[1], [2]]], X = [[1], [2]], lengths = [2], this_word = ''CAT'',
      n_constant = 3, min_n_components = 2, max_n_components = 10, random_state = 14,
      verbose = False\<rparr>"

text \<open>
  A vocabulary of three words. CAT has three sequences of three frames, DOG one
  sequence of three frames, BIRD two sequences of two frames; a frame has two
  features.
\<close>

definition cat_sequences :: "features list" where
  "cat_sequences = [[[1, 0], [2, 0], [3, 0]], [[4, 0], [5, 0], [6, 0]], [[7, 0], [8, 0], [9, 0]]]"

definition cat_X :: features where
  "cat_X = [[1, 0], [2, 0], [3, 0], [4, 0], [5, 0], [6, 0], [7, 0], [8, 0], [9, 0]]"

definition vocabulary_sequences :: "(string, features list) dict" where
  "vocabulary_sequences =
     [(''CAT'', cat_sequences), (''DOG'', [[[1, 1], [1, 2], [1, 3]]]),
      (''BIRD'', [[[2, 1], [2, 2]], [[2, 3], [2, 4]]])]"

definition vocabulary_Xlengths :: "(string, features \<times> nat list) dict" where
  "vocabulary_Xlengths =
     [(''CAT'', (cat_X, [3, 3, 3])), (''DOG'', ([[1, 1], [1, 2], [1, 3]], [3])),
      (''BIRD'', ([[2, 1], [2, 2], [2, 3], [2, 4]], [2, 2]))]"

definition cat :: selector where
  "cat =
     \<lparr>words = vocabulary_sequences, hwords = vocabulary_Xlengths,
      sequences = cat_sequences, X = cat_X, lengths = [3, 3, 3], this_word = ''CAT'',
      n_constant = 3, min_n_components = 2, max_n_components = 10, random_state = 14,
      verbose = False\<rparr>"

text \<open>
  Three trained models, and three test items: of three frames, of five frames,
  and of a single frame, which no model of two or more states can score.
\<close>

definition toy_models :: "(string, nat \<times> int) dict" where
  "toy_models = [(''CAT'', (0, 2)), (''DOG'', (0, 3)), (''BIRD'', (0, 5))]"

definition item_three :: "features \<times> nat list" where
  "item_three = ([[1, 1], [1, 2], [1, 3]], [3])"

definition item_five :: "features \<times> nat list" where
  "item_five = ([[2, 1], [2, 2], [2, 3], [2, 4], [2, 5]], [5])"

definition item_one :: "features \<times> nat list" where
  "item_one = ([[0, 0]], [1])"

text \<open>
  The same library on an unlucky day: the training that draws from generator
  state 7 raises.
\<close>

definition unlucky_lib :: "(nat \<times> int, nat) hmm_lib" where
  "unlucky_lib =
     toy_lib\<lparr>fit := (\<lambda>g n fs ls. if g = 7 then (None, Suc g) else fit toy_lib g n fs ls)\<rparr>"

text \<open>
  A word with sequences of four, three and four frames, swept at four states
  only.
\<close>

definition uneven :: selector where
  "uneven =
     \<lparr>words = [(''EEL'', [[[1, 0], [2, 0], [3, 0], [4, 0]], [[5, 0], [6, 0], [7, 0]],
                           [[8, 0], [9, 0], [10, 0], [11, 0]]])],
      hwords = [(''EEL'', ([[1, 0], [2, 0], [3, 0], [4, 0], [5, 0], [6, 0], [7, 0],
                            [8, 0], [9, 0], [10, 0], [11, 0]], [4, 3, 4]))],
      sequences = [[[1, 0], [2, 0], [3, 0], [4, 0]], [[5, 0], [6, 0], [7, 0]],
                   [[8, 0], [9, 0], [10, 0], [11, 0]]],
      X = [[1, 0], [2, 0], [3, 0], [4, 0], [5, 0], [6, 0], [7, 0], [8, 0], [9, 0], [10, 0], [11, 0]],
      lengths = [4, 3, 4], this_word = ''EEL'',
      n_constant = 3, min_n_components = 4, max_n_components = 4, random_state = 14,
      verbose = False\<rparr>"

section \<open>SelectorConstant: one training\<close>

text \<open>
  Claim C6. \<^verbatim>\<open>SelectorConstant.select()\<close> returns exactly what the one training at
  \<^verbatim>\<open>n_constant\<close> states, on the word's data and seeded with \<^verbatim>\<open>random_state\<close>,
  produces: that model when the training succeeds, \<^verbatim>\<open>None\<close> when it fails. The
  call adds this one training to the trainings run and leaves the global
  generator alone; its outcome does not depend on the scoring routine, so it
  scores and compares nothing.
\<close>

theorem SelectorConstant_select_one_training:
  "fst (SelectorConstant_select L self w) =
     fst (fit L (seeded L (random_state self)) (n_constant self) (X self) (lengths self))
   \<and> snd (SelectorConstant_select L self w) =
     \<lparr>rng = rng w, fits = fits w @ [(n_constant self, X self, lengths self)]\<rparr>
   \<and> SelectorConstant_select (L\<lparr>score := sc\<rparr>) self w = SelectorConstant_select L self w"
  by (cases "fit L (seeded L (random_state self)) (n_constant self) (X self) (lengths self)")
    (auto simp: SelectorConstant_select_def base_model_def GaussianHMM_fit_def Let_def
      split: option.splits)

section \<open>SelectorBIC: the candidate of least BIC\<close>

lemma flt_Fin_trans: "a < b \<Longrightarrow> flt (Fin b) c \<Longrightarrow> flt (Fin a) c"
  by (cases c) auto

lemma flt_Fin_between: "flt (Fin a) c \<Longrightarrow> \<not> flt (Fin b) c \<Longrightarrow> a < b"
  by (cases c) auto

lemma bic_loop_result:
  "bic_loop L self ns (best, bm, w) = (best', bm', w') \<Longrightarrow>
     (best' = best \<and> bm' = bm \<and>
        (\<forall>n m b. (n, Inr (m, b)) \<in> set (bic_trials L self ns w) \<longrightarrow> \<not> flt (Fin b) best))
     \<or> (\<exists>n m b. (n, Inr (m, b)) \<in> set (bic_trials L self ns w) \<and> best' = Fin b \<and> bm' = Some m
           \<and> flt (Fin b) best
           \<and> (\<forall>n' m' b'. (n', Inr (m', b')) \<in> set (bic_trials L self ns w) \<longrightarrow> b \<le> b'))"
proof (induction ns arbitrary: best bm w)
  case Nil
  then show ?case by simp
next
  case (Cons n ns)
  obtain r w1 where t: "bic_try L self n w = (r, w1)" by (cases "bic_try L self n w")
  show ?case
  proof (cases r)
    case (Inl e)
    with t Cons.prems have "bic_loop L self ns (best, bm, w1) = (best', bm', w')" by simp
    from Cons.IH [OF this] show ?thesis using t Inl by auto
  next
    case (Inr mb)
    obtain m b where mb: "mb = (m, b)" by (cases mb)
    show ?thesis
    proof (cases "flt (Fin b) best")
      case True
      with t Inr mb Cons.prems have "bic_loop L self ns (Fin b, Some m, w1) = (best', bm', w')"
        by simp
      from Cons.IH [OF this] show ?thesis
      proof (elim disjE conjE exE)
        assume "best' = Fin b" "bm' = Some m"
          "\<forall>n m ba. (n, Inr (m, ba)) \<in> set (bic_trials L self ns w1) \<longrightarrow> \<not> flt (Fin ba) (Fin b)"
        then show ?thesis using t Inr mb True by (intro disjI2) (auto simp: not_less)
      next
        fix n2 m2 b2
        assume "(n2, Inr (m2, b2)) \<in> set (bic_trials L self ns w1)" "best' = Fin b2" "bm' = Some m2"
          "flt (Fin b2) (Fin b)"
          "\<forall>n' m' b'. (n', Inr (m', b')) \<in> set (bic_trials L self ns w1) \<longrightarrow> b2 \<le> b'"
        then show ?thesis using t Inr mb True
          by (intro disjI2 exI [of _ n2] exI [of _ m2] exI [of _ b2])
            (auto intro: flt_Fin_trans)
      qed
    next
      case False
      with t Inr mb Cons.prems have "bic_loop L self ns (best, bm, w1) = (best', bm', w')"
        by simp
      from Cons.IH [OF this] show ?thesis
      proof (elim disjE conjE exE)
        assume "best' = best" "bm' = bm"
          "\<forall>n m b. (n, Inr (m, b)) \<in> set (bic_trials L self ns w1) \<longrightarrow> \<not> flt (Fin b) best"
        then show ?thesis using t Inr mb False by (intro disjI1) auto
      next
        fix n2 m2 b2
        assume "(n2, Inr (m2, b2)) \<in> set (bic_trials L self ns w1)" "best' = Fin b2" "bm' = Some m2"
          "flt (Fin b2) best"
          "\<forall>n' m' b'. (n', Inr (m', b')) \<in> set (bic_trials L self ns w1) \<longrightarrow> b2 \<le> b'"
        then show ?thesis using t Inr mb False flt_Fin_between [of b2 best b]
          by (intro disjI2 exI [of _ n2] exI [of _ m2] exI [of _ b2]) auto
      qed
    qed
  qed
qed

lemma bic_trials_candidates: "map fst (bic_trials L self ns w) = ns"
  by (induction ns arbitrary: w) (auto split: prod.splits)

lemma bic_try_success:
  "bic_try L self n w = (Inr (m, b), w') \<Longrightarrow>
     fst (fit L (rng w) n (X self) (lengths self)) = Some m
     \<and> (\<exists>logL row0 rest. score L m (X self) (lengths self) = Some logL \<and> X self = row0 # rest
           \<and> b = BIC logL n (length row0) (length (X self)))"
  by (auto simp: bic_try_def GaussianHMM_fit_def model_score_def BIC_def Let_def
      split: prod.splits sum.splits option.splits list.splits)

lemma bic_try_failure:
  "bic_try L self n w = (Inl e, w') \<Longrightarrow>
     fst (fit L (rng w) n (X self) (lengths self)) = None
     \<or> (\<exists>m. fst (fit L (rng w) n (X self) (lengths self)) = Some m
            \<and> score L m (X self) (lengths self) = None)
     \<or> X self = []"
  by (auto simp: bic_try_def GaussianHMM_fit_def model_score_def Let_def
      split: prod.splits sum.splits option.splits list.splits)

lemma bic_trials_failure:
  "(n, Inl e) \<in> set (bic_trials L self ns w) \<Longrightarrow>
     (\<exists>g. fst (fit L g n (X self) (lengths self)) = None
          \<or> (\<exists>m. fst (fit L g n (X self) (lengths self)) = Some m
                \<and> score L m (X self) (lengths self) = None))
     \<or> X self = []"
proof (induction ns arbitrary: w)
  case Nil
  then show ?case by simp
next
  case (Cons k ns)
  obtain r w1 where t: "bic_try L self k w = (r, w1)" by (cases "bic_try L self k w")
  from Cons.prems t consider "k = n" "r = Inl e" | "(n, Inl e) \<in> set (bic_trials L self ns w1)"
    by auto
  then show ?case
  proof cases
    case 1
    with t bic_try_failure [of L self n w e w1] show ?thesis by blast
  next
    case 2
    from Cons.IH [OF this] show ?thesis .
  qed
qed

lemma bic_trials_success:
  "(n, Inr (m, b)) \<in> set (bic_trials L self ns w) \<Longrightarrow>
     n \<in> set ns \<and> (\<exists>g. fst (fit L g n (X self) (lengths self)) = Some m)
     \<and> (\<exists>logL row0 rest. score L m (X self) (lengths self) = Some logL \<and> X self = row0 # rest
           \<and> b = BIC logL n (length row0) (length (X self)))"
proof (induction ns arbitrary: w)
  case Nil
  then show ?case by simp
next
  case (Cons k ns)
  obtain r w1 where t: "bic_try L self k w = (r, w1)" by (cases "bic_try L self k w")
  from Cons.prems t consider "k = n" "r = Inr (m, b)" | "(n, Inr (m, b)) \<in> set (bic_trials L self ns w1)"
    by auto
  then show ?case
  proof cases
    case 1
    with t bic_try_success [of L self n w m b w1] show ?thesis by auto
  next
    case 2
    from Cons.IH [OF this] show ?thesis by auto
  qed
qed

text \<open>
  Claim C2. The BIC sweep tries every state count of the range in order. A
  candidate whose \<^verbatim>\<open>try\<close> block succeeds has trained and scored, and its score is
  \<open>BIC(n) = -2 logL + p(n) ln N\<close> with \<open>p(n) = n\<^sup>2 + 2 n d - 1\<close>, \<open>d\<close> the length
  of a feature row and \<open>N\<close> the number of rows; a candidate whose block fails
  did not train or did not score (or the data has no row), and is passed over.
  \<^verbatim>\<open>select()\<close> returns \<^verbatim>\<open>None\<close> exactly when every candidate fails, and otherwise
  a candidate whose BIC is at most that of every candidate that succeeded.
\<close>

theorem SelectorBIC_select_minimal:
  "map fst (bic_trials L self [min_n_components self .. max_n_components self] w)
     = [min_n_components self .. max_n_components self]
   \<and> (\<forall>n m b. (n, Inr (m, b)) \<in> set (bic_trials L self [min_n_components self .. max_n_components self] w) \<longrightarrow>
         (\<exists>g. fst (fit L g n (X self) (lengths self)) = Some m)
         \<and> (\<exists>logL row0 rest. score L m (X self) (lengths self) = Some logL \<and> X self = row0 # rest
               \<and> b = BIC logL n (length row0) (length (X self))))
   \<and> (\<forall>n e. (n, Inl e) \<in> set (bic_trials L self [min_n_components self .. max_n_components self] w) \<longrightarrow>
         (\<exists>g. fst (fit L g n (X self) (lengths self)) = None
              \<or> (\<exists>m. fst (fit L g n (X self) (lengths self)) = Some m
                    \<and> score L m (X self) (lengths self) = None))
         \<or> X self = [])
   \<and> ((fst (SelectorBIC_select L self w) = None) =
        (\<forall>n r. (n, r) \<in> set (bic_trials L self [min_n_components self .. max_n_components self] w) \<longrightarrow> isl r))
   \<and> (\<forall>m. fst (SelectorBIC_select L self w) = Some m \<longrightarrow>
         (\<exists>n b. (n, Inr (m, b)) \<in> set (bic_trials L self [min_n_components self .. max_n_components self] w)
            \<and> (\<forall>n' m' b'. (n', Inr (m', b')) \<in> set (bic_trials L self [min_n_components self .. max_n_components self] w)
                  \<longrightarrow> b \<le> b')))"
proof -
  let ?ns = "[min_n_components self .. max_n_components self]"
  let ?T = "bic_trials L self ?ns w"
  obtain best' bm' w' where l: "bic_loop L self ?ns (PosInf, None, w) = (best', bm', w')"
    by (cases "bic_loop L self ?ns (PosInf, None, w)")
  then have sel: "fst (SelectorBIC_select L self w) = bm'"
    by (simp add: SelectorBIC_select_def)
  have none: "bm' = None \<longleftrightarrow> (\<forall>n r. (n, r) \<in> set ?T \<longrightarrow> isl r)"
    using bic_loop_result [OF l] by (auto simp: isl_def) (metis old.sum.exhaust surj_pair)
  have some: "\<exists>n b. (n, Inr (m, b)) \<in> set ?T \<and> (\<forall>n' m' b'. (n', Inr (m', b')) \<in> set ?T \<longrightarrow> b \<le> b')"
    if "bm' = Some m" for m
    using bic_loop_result [OF l] that by auto
  show ?thesis
    unfolding sel
    using none some bic_trials_success [of _ _ _ L self ?ns w]
      bic_trials_failure [of _ _ L self ?ns w]
    by (simp add: bic_trials_candidates)
qed

lemma ln9_bounds: "0 \<le> ln (9::real)" "ln (9::real) \<le> 8"
  using ln_le_minus_one [of "9::real"] by simp_all

lemma toy_bic_try:
  "bic_try toy_lib cat n w =
     (if 1 \<le> n \<and> n \<le> 9
      then Inr ((rng w, n), 200 * (real_of_int n - 9)\<^sup>2 + real_of_int (n\<^sup>2 + 4 * n - 1) * ln 9)
      else Inl FitError,
      \<lparr>rng = Suc (rng w), fits = fits w @ [(n, cat_X, [3, 3, 3])]\<rparr>)"
  by (simp add: bic_try_def toy_lib_def cat_def cat_X_def GaussianHMM_fit_def model_score_def)

lemma toy_bic_select: "fst (SelectorBIC_select toy_lib cat w0) = Some (7, 9)"
proof -
  define l where "l = ln (9::real)"
  have b: "0 \<le> l" "l \<le> 8"
    using ln9_bounds by (simp_all add: l_def)
  have t: "bic_try toy_lib cat n w =
     (if 1 \<le> n \<and> n \<le> 9
      then Inr ((rng w, n), 200 * (real_of_int n - 9)\<^sup>2 + real_of_int (n\<^sup>2 + 4 * n - 1) * l)
      else Inl FitError,
      \<lparr>rng = Suc (rng w), fits = fits w @ [(n, cat_X, [3, 3, 3])]\<rparr>)" for n w
    unfolding l_def by (rule toy_bic_try)
  have r: "min_n_components cat = 2" "max_n_components cat = 10"
    by (simp_all add: cat_def)
  show ?thesis
    using b by (simp add: SelectorBIC_select_def t r w0_def)
qed

theorem SelectorBIC_select_minimal_witness:
  "fst (SelectorBIC_select toy_lib cat w0) = Some (7, 9)
   \<and> (\<exists>n b. (n, Inr ((7, 9), b)) \<in> set (bic_trials toy_lib cat [2..10] w0)
         \<and> (\<forall>n' m' b'. (n', Inr (m', b')) \<in> set (bic_trials toy_lib cat [2..10] w0) \<longrightarrow> b \<le> b'))"
proof -
  have r: "min_n_components cat = 2" "max_n_components cat = 10"
    by (simp_all add: cat_def)
  show ?thesis
    using SelectorBIC_select_minimal [of toy_lib cat w0] toy_bic_select by (simp add: r)
qed

section \<open>SelectorDIC: the candidate of greatest DIC\<close>

lemma fgt_Fin_trans: "a < b \<Longrightarrow> fgt (Fin a) c \<Longrightarrow> fgt (Fin b) c"
  by (cases c) (auto simp: fgt_def)

lemma fgt_Fin_between: "fgt (Fin a) c \<Longrightarrow> \<not> fgt (Fin b) c \<Longrightarrow> b < a"
  by (cases c) (auto simp: fgt_def)

lemma fgt_Fin_Fin [simp]: "fgt (Fin a) (Fin b) = (b < a)"
  by (simp add: fgt_def)

lemma dic_loop_result:
  assumes "dic_loop L self M ns (best, bm, w) = (best', bm', w')"
    and "\<forall>n m d. (n, Inr (m, d)) \<in> set (dic_trials L self M ns w) \<longrightarrow> (\<exists>x. d = Fin x)"
  shows "(best' = best \<and> bm' = bm \<and>
        (\<forall>n m d. (n, Inr (m, Fin d)) \<in> set (dic_trials L self M ns w) \<longrightarrow> \<not> fgt (Fin d) best))
     \<or> (\<exists>n m d. (n, Inr (m, Fin d)) \<in> set (dic_trials L self M ns w) \<and> best' = Fin d \<and> bm' = Some m
           \<and> fgt (Fin d) best
           \<and> (\<forall>n' m' d'. (n', Inr (m', Fin d')) \<in> set (dic_trials L self M ns w) \<longrightarrow> d' \<le> d))"
  using assms
proof (induction ns arbitrary: best bm w)
  case Nil
  then show ?case by simp
next
  case (Cons n ns)
  obtain r w1 where t: "dic_try L self M n w = (r, w1)" by (cases "dic_try L self M n w")
  have fin: "\<forall>n m d. (n, Inr (m, d)) \<in> set (dic_trials L self M ns w1) \<longrightarrow> (\<exists>x. d = Fin x)"
    using Cons.prems(2) t by auto
  show ?case
  proof (cases r)
    case (Inl e)
    with t Cons.prems have "dic_loop L self M ns (best, bm, w1) = (best', bm', w')" by simp
    from Cons.IH [OF this fin] show ?thesis using t Inl by auto
  next
    case (Inr md)
    obtain m d0 where md: "md = (m, d0)" by (cases md)
    from Cons.prems(2) t Inr md have "\<exists>x. d0 = Fin x" by simp
    then obtain d where d0: "d0 = Fin d" ..
    show ?thesis
    proof (cases "fgt (Fin d) best")
      case True
      with t Inr md d0 Cons.prems have "dic_loop L self M ns (Fin d, Some m, w1) = (best', bm', w')"
        by simp
      from Cons.IH [OF this fin] show ?thesis
      proof (elim disjE conjE exE)
        assume "best' = Fin d" "bm' = Some m"
          "\<forall>n m da. (n, Inr (m, Fin da)) \<in> set (dic_trials L self M ns w1) \<longrightarrow> \<not> fgt (Fin da) (Fin d)"
        then show ?thesis using t Inr md d0 True
          by (intro disjI2 exI [of _ n] exI [of _ m] exI [of _ d]) (auto simp: not_less)
      next
        fix n2 m2 d2
        assume "(n2, Inr (m2, Fin d2)) \<in> set (dic_trials L self M ns w1)" "best' = Fin d2" "bm' = Some m2"
          "fgt (Fin d2) (Fin d)"
          "\<forall>n' m' d'. (n', Inr (m', Fin d')) \<in> set (dic_trials L self M ns w1) \<longrightarrow> d' \<le> d2"
        then show ?thesis using t Inr md d0 True
          by (intro disjI2 exI [of _ n2] exI [of _ m2] exI [of _ d2])
            (auto intro: fgt_Fin_trans)
      qed
    next
      case False
      with t Inr md d0 Cons.prems have "dic_loop L self M ns (best, bm, w1) = (best', bm', w')"
        by simp
      from Cons.IH [OF this fin] show ?thesis
      proof (elim disjE conjE exE)
        assume "best' = best" "bm' = bm"
          "\<forall>n m d. (n, Inr (m, Fin d)) \<in> set (dic_trials L self M ns w1) \<longrightarrow> \<not> fgt (Fin d) best"
        then show ?thesis using t Inr md d0 False by (intro disjI1) auto
      next
        fix n2 m2 d2
        assume "(n2, Inr (m2, Fin d2)) \<in> set (dic_trials L self M ns w1)" "best' = Fin d2" "bm' = Some m2"
          "fgt (Fin d2) best"
          "\<forall>n' m' d'. (n', Inr (m', Fin d')) \<in> set (dic_trials L self M ns w1) \<longrightarrow> d' \<le> d2"
        then show ?thesis using t Inr md d0 False fgt_Fin_between [of d2 best d]
          by (intro disjI2 exI [of _ n2] exI [of _ m2] exI [of _ d2]) auto
      qed
    qed
  qed
qed

lemma dic_trials_candidates: "map fst (dic_trials L self M ns w) = ns"
  by (induction ns arbitrary: w) (auto split: prod.splits)

lemma truediv_nonzero: "d \<noteq> 0 \<Longrightarrow> truediv s d = Inr (Fin (pyval s / real_of_int d))"
  by (cases s) auto

lemma dic_others_sum:
  "dic_others L self m ws acc = Inr s \<Longrightarrow>
     \<exists>xs. map (\<lambda>w. case map_of (hwords self) w of None \<Rightarrow> None | Some (fs, ls) \<Rightarrow> score L m fs ls)
            (filter (\<lambda>w. w \<noteq> this_word self) ws) = map Some xs
          \<and> pyval s = pyval acc + sum_list xs"
proof (induction ws arbitrary: acc)
  case Nil
  then show ?case by simp
next
  case (Cons a ws)
  show ?case
  proof (cases "a = this_word self")
    case True
    with Cons show ?thesis by simp
  next
    case False
    with Cons.prems obtain fs ls x where
      h: "map_of (hwords self) a = Some (fs, ls)" and sc: "score L m fs ls = Some x"
      and rest: "dic_others L self m ws (iadd acc x) = Inr s"
      by (auto simp: getitem_def model_score_def split: option.splits sum.splits prod.splits)
    from Cons.IH [OF rest] obtain xs where
      "map (\<lambda>w. case map_of (hwords self) w of None \<Rightarrow> None | Some (fs, ls) \<Rightarrow> score L m fs ls)
            (filter (\<lambda>w. w \<noteq> this_word self) ws) = map Some xs"
      "pyval s = pyval (iadd acc x) + sum_list xs" by blast
    then show ?thesis using False h sc
      by (intro exI [of _ "x # xs"]) (cases acc; simp)
  qed
qed


lemma init_hwords:
  "ModelSelector_init aws awx word nc mn mx rs vb = Inr self \<Longrightarrow>
     hwords self = awx \<and> map_of (hwords self) (this_word self) \<noteq> None"
  by (auto simp: ModelSelector_init_def getitem_def split: sum.splits option.splits)

lemma single_hwords:
  assumes "length (hwords self) = 1" "map_of (hwords self) (this_word self) \<noteq> None"
  shows "\<exists>v. hwords self = [(this_word self, v)]"
proof -
  from assms(1) obtain k v where "hwords self = [(k, v)]"
    by (cases "hwords self") (auto simp: length_Suc_conv)
  with assms(2) show ?thesis by (auto split: if_splits)
qed

lemma dic_others_only_this_word:
  assumes "hwords self = [(this_word self, v)]"
  shows "dic_others L self m ws (PyInt 0) = Inr s \<Longrightarrow> s = PyInt 0"
  using assms by (induction ws) (auto simp: getitem_def split: if_splits)

lemma dic_try_single_word:
  assumes "hwords self = [(this_word self, v)]"
  shows "isl (fst (dic_try L self 1 n w))"
  using dic_others_only_this_word [OF assms]
  by (fastforce simp: dic_try_def split: prod.splits sum.splits)

lemma dic_loop_all_fail:
  "(\<And>n w. isl (fst (dic_try L self M n w))) \<Longrightarrow>
     fst (snd (dic_loop L self M ns (b, bm, w))) = bm"
proof (induction ns arbitrary: w)
  case Nil
  show ?case by simp
next
  case (Cons n ns)
  obtain r w' where t: "dic_try L self M n w = (r, w')" by (cases "dic_try L self M n w")
  with Cons.prems [of n w] obtain e where "r = Inl e" by (cases r) auto
  with t Cons show ?case by simp
qed

lemma dic_try_success:
  assumes inv: "map_of (hwords self) (this_word self) \<noteq> None"
    and t: "dic_try L self (int (length (hwords self))) n w = (Inr (m, d), w')"
  shows "fst (fit L (rng w) n (X self) (lengths self)) = Some m
     \<and> (\<exists>logL others. score L m (X self) (lengths self) = Some logL
           \<and> other_scores L self m = map Some others
           \<and> d = Fin (DIC logL others (length (hwords self))))"
proof -
  have ne: "length (hwords self) \<noteq> 1"
  proof
    assume one: "length (hwords self) = 1"
    from single_hwords [OF one inv] obtain v where "hwords self = [(this_word self, v)]" ..
    from dic_try_single_word [OF this, of L n w] t one show False by simp
  qed
  then have nz: "int (length (hwords self)) - 1 \<noteq> 0" by simp
  from t obtain g logL s where
    f: "fit L (rng w) n (X self) (lengths self) = (Some m, g)"
    and sc: "score L m (X self) (lengths self) = Some logL"
    and o: "dic_others L self m (keys (words self)) (PyInt 0) = Inr s"
    and d: "d = fsub logL (Fin (pyval s / real_of_int (int (length (hwords self)) - 1)))"
    by (auto simp: dic_try_def GaussianHMM_fit_def model_score_def truediv_nonzero [OF nz]
        split: prod.splits sum.splits option.splits)
  from dic_others_sum [OF o] obtain xs where
    "other_scores L self m = map Some xs" "pyval s = sum_list xs"
    by (auto simp: other_scores_def)
  with f sc d show ?thesis
    by (auto simp: DIC_def)
qed

lemma dic_others_failure:
  "dic_others L self m ws acc = Inl e \<Longrightarrow>
     None \<in> set (map (\<lambda>w. case map_of (hwords self) w of None \<Rightarrow> None
                                | Some (fs, ls) \<Rightarrow> score L m fs ls)
                  (filter (\<lambda>w. w \<noteq> this_word self) ws))"
proof (induction ws arbitrary: acc)
  case Nil
  then show ?case by simp
next
  case (Cons a ws)
  show ?case
  proof (cases "a = this_word self")
    case True
    with Cons show ?thesis by simp
  next
    case False
    show ?thesis
    proof (cases "map_of (hwords self) a")
      case None
      with False show ?thesis by simp
    next
      case (Some v)
      obtain fs ls where v: "v = (fs, ls)" by (cases v)
      show ?thesis
      proof (cases "score L m fs ls")
        case None
        with False Some v show ?thesis by simp
      next
        case (Some x)
        with Cons.prems False \<open>map_of (hwords self) a = Some v\<close> v
        have "dic_others L self m ws (iadd acc x) = Inl e"
          by (simp add: getitem_def model_score_def)
        from Cons.IH [OF this] show ?thesis by simp
      qed
    qed
  qed
qed

lemma truediv_failure: "truediv s d = Inl e \<Longrightarrow> d = 0"
  by (cases s) (auto split: if_splits)

lemma dic_try_failure:
  assumes "dic_try L self M n w = (Inl e, w')"
  shows "fst (fit L (rng w) n (X self) (lengths self)) = None
     \<or> (\<exists>m. fst (fit L (rng w) n (X self) (lengths self)) = Some m
            \<and> (score L m (X self) (lengths self) = None \<or> None \<in> set (other_scores L self m)))
     \<or> M = 1"
proof (cases "fit L (rng w) n (X self) (lengths self)")
  case (Pair r g)
  show ?thesis
  proof (cases r)
    case None
    with Pair show ?thesis by simp
  next
    case (Some m)
    show ?thesis
    proof (cases "score L m (X self) (lengths self)")
      case None
      with Pair Some show ?thesis by simp
    next
      case sc: (Some logL)
      show ?thesis
      proof (cases "dic_others L self m (keys (words self)) (PyInt 0)")
        case (Inl e')
        from dic_others_failure [OF this] Pair Some show ?thesis
          by (simp add: other_scores_def)
      next
        case (Inr s)
        with assms Pair Some sc obtain e' where "truediv s (M - 1) = Inl e'"
          by (auto simp: dic_try_def GaussianHMM_fit_def model_score_def split: sum.splits)
        from truediv_failure [OF this] show ?thesis by simp
      qed
    qed
  qed
qed

lemma dic_trials_failure:
  "(n, Inl e) \<in> set (dic_trials L self M ns w) \<Longrightarrow>
     (\<exists>g. fst (fit L g n (X self) (lengths self)) = None
          \<or> (\<exists>m. fst (fit L g n (X self) (lengths self)) = Some m
                \<and> (score L m (X self) (lengths self) = None
                    \<or> None \<in> set (other_scores L self m))))
     \<or> M = 1"
proof (induction ns arbitrary: w)
  case Nil
  then show ?case by simp
next
  case (Cons k ns)
  obtain r w1 where t: "dic_try L self M k w = (r, w1)" by (cases "dic_try L self M k w")
  from Cons.prems t consider "k = n" "r = Inl e" | "(n, Inl e) \<in> set (dic_trials L self M ns w1)"
    by auto
  then show ?case
  proof cases
    case 1
    with t dic_try_failure [of L self M n w e w1] show ?thesis by blast
  next
    case 2
    from Cons.IH [OF this] show ?thesis .
  qed
qed

lemma dic_trials_success:
  assumes inv: "map_of (hwords self) (this_word self) \<noteq> None"
  shows "(n, Inr (m, d)) \<in> set (dic_trials L self (int (length (hwords self))) ns w) \<Longrightarrow>
     n \<in> set ns \<and> (\<exists>g. fst (fit L g n (X self) (lengths self)) = Some m)
     \<and> (\<exists>logL others. score L m (X self) (lengths self) = Some logL
           \<and> other_scores L self m = map Some others
           \<and> d = Fin (DIC logL others (length (hwords self))))"
proof (induction ns arbitrary: w)
  case Nil
  then show ?case by simp
next
  case (Cons k ns)
  let ?M = "int (length (hwords self))"
  obtain r w1 where t: "dic_try L self ?M k w = (r, w1)" by (cases "dic_try L self ?M k w")
  from Cons.prems t consider "k = n" "r = Inr (m, d)"
    | "(n, Inr (m, d)) \<in> set (dic_trials L self ?M ns w1)"
    by auto
  then show ?case
  proof cases
    case 1
    with t dic_try_success [OF inv, of L n w m d w1] show ?thesis by auto
  next
    case 2
    from Cons.IH [OF this] show ?thesis by auto
  qed
qed

text \<open>
  Claim C3. The DIC sweep of a constructed selector tries every state count of
  the range in order. A candidate whose \<^verbatim>\<open>try\<close> block succeeds has trained, scored
  on its own word and on every other word, and its score is
  \<open>DIC(n) = logL_self - (1 / (M - 1)) \<Sum> logL_other\<close>, \<open>M\<close> the size of the
  vocabulary; a candidate whose block fails did not train, or did not score on
  some word (or \<open>M = 1\<close>), and is passed over. \<^verbatim>\<open>select()\<close> returns \<^verbatim>\<open>None\<close>
  exactly when every candidate fails, and otherwise a candidate whose DIC is at
  least that of every candidate that succeeded.
\<close>

theorem SelectorDIC_select_maximal:
  assumes init: "ModelSelector_init aws awx word nc mn mx rs vb = Inr self"
  shows "map fst (dic_trials L self (int (length (hwords self)))
             [min_n_components self .. max_n_components self] w)
     = [min_n_components self .. max_n_components self]
   \<and> (\<forall>n m d. (n, Inr (m, d)) \<in> set (dic_trials L self (int (length (hwords self)))
             [min_n_components self .. max_n_components self] w) \<longrightarrow>
         (\<exists>g. fst (fit L g n (X self) (lengths self)) = Some m)
         \<and> (\<exists>logL others. score L m (X self) (lengths self) = Some logL
               \<and> other_scores L self m = map Some others
               \<and> d = Fin (DIC logL others (length (hwords self)))))
   \<and> (\<forall>n e. (n, Inl e) \<in> set (dic_trials L self (int (length (hwords self)))
             [min_n_components self .. max_n_components self] w) \<longrightarrow>
         (\<exists>g. fst (fit L g n (X self) (lengths self)) = None
              \<or> (\<exists>m. fst (fit L g n (X self) (lengths self)) = Some m
                    \<and> (score L m (X self) (lengths self) = None
                        \<or> None \<in> set (other_scores L self m))))
         \<or> length (hwords self) = 1)
   \<and> ((fst (SelectorDIC_select L self w) = None) =
        (\<forall>n r. (n, r) \<in> set (dic_trials L self (int (length (hwords self)))
             [min_n_components self .. max_n_components self] w) \<longrightarrow> isl r))
   \<and> (\<forall>m. fst (SelectorDIC_select L self w) = Some m \<longrightarrow>
         (\<exists>n d. (n, Inr (m, Fin d)) \<in> set (dic_trials L self (int (length (hwords self)))
             [min_n_components self .. max_n_components self] w)
            \<and> (\<forall>n' m' d'. (n', Inr (m', Fin d')) \<in> set (dic_trials L self (int (length (hwords self)))
             [min_n_components self .. max_n_components self] w)
                  \<longrightarrow> d' \<le> d)))"
proof -
  let ?ns = "[min_n_components self .. max_n_components self]"
  let ?M = "int (length (hwords self))"
  let ?T = "dic_trials L self ?M ?ns w"
  from init_hwords [OF init] have inv: "map_of (hwords self) (this_word self) \<noteq> None" by blast
  have fin: "\<forall>n m d. (n, Inr (m, d)) \<in> set ?T \<longrightarrow> (\<exists>x. d = Fin x)"
    using dic_trials_success [OF inv, of _ _ _ L ?ns w] by blast
  obtain best' bm' w' where l: "dic_loop L self ?M ?ns (NegInf, None, w) = (best', bm', w')"
    by (cases "dic_loop L self ?M ?ns (NegInf, None, w)")
  then have sel: "fst (SelectorDIC_select L self w) = bm'"
    by (simp add: SelectorDIC_select_def)
  have none: "bm' = None \<longleftrightarrow> (\<forall>n r. (n, r) \<in> set ?T \<longrightarrow> isl r)"
  proof
    assume "bm' = None"
    with dic_loop_result [OF l fin]
    have "\<forall>n m d. (n, Inr (m, Fin d)) \<notin> set ?T" by (auto simp: fgt_def)
    with fin have "\<forall>n m d. (n, Inr (m, d)) \<notin> set ?T" by blast
    then show "\<forall>n r. (n, r) \<in> set ?T \<longrightarrow> isl r"
      by (metis isl_def old.sum.exhaust surj_pair)
  next
    assume "\<forall>n r. (n, r) \<in> set ?T \<longrightarrow> isl r"
    then have "\<forall>n m d. (n, Inr (m, d)) \<notin> set ?T" by fastforce
    with dic_loop_result [OF l fin] show "bm' = None" by blast
  qed
  have some: "\<exists>n d. (n, Inr (m, Fin d)) \<in> set ?T
        \<and> (\<forall>n' m' d'. (n', Inr (m', Fin d')) \<in> set ?T \<longrightarrow> d' \<le> d)"
    if "bm' = Some m" for m
    using dic_loop_result [OF l fin] that by auto
  show ?thesis
    unfolding sel
    using none some dic_trials_success [OF inv, of _ _ _ L ?ns w]
      dic_trials_failure [of _ _ L self ?M ?ns w]
    by (simp add: dic_trials_candidates)
qed


lemma cat_init:
  "ModelSelector_init vocabulary_sequences vocabulary_Xlengths ''CAT'' 3 2 10 14 False = Inr cat"
  by (simp add: ModelSelector_init_def getitem_def cat_def vocabulary_sequences_def
      vocabulary_Xlengths_def)

lemma toy_dic_try:
  "2 \<le> n \<Longrightarrow> dic_try toy_lib cat 3 n w =
     (if n = 2 then Inr ((rng w, 2), Fin (- 4650))
      else if n = 3 then Inr ((rng w, 3), Fin (- 3550))
      else if 4 \<le> n \<and> n \<le> 9 then Inl ScoreError
      else Inl FitError,
      \<lparr>rng = Suc (rng w), fits = fits w @ [(n, cat_X, [3, 3, 3])]\<rparr>)"
  by (simp add: dic_try_def toy_lib_def cat_def cat_X_def GaussianHMM_fit_def model_score_def
      vocabulary_sequences_def vocabulary_Xlengths_def keys_def getitem_def)

lemma toy_dic_select: "fst (SelectorDIC_select toy_lib cat w0) = Some (1, 3)"
proof -
  have r: "min_n_components cat = 2" "max_n_components cat = 10"
    "int (length (hwords cat)) = 3"
    by (simp_all add: cat_def vocabulary_Xlengths_def)
  show ?thesis
    by (simp add: SelectorDIC_select_def toy_dic_try r w0_def fgt_def)
qed

theorem SelectorDIC_select_maximal_witness:
  "ModelSelector_init vocabulary_sequences vocabulary_Xlengths ''CAT'' 3 2 10 14 False = Inr cat
   \<and> fst (SelectorDIC_select toy_lib cat w0) = Some (1, 3)
   \<and> (\<exists>n d. (n, Inr ((1, 3), Fin d)) \<in> set (dic_trials toy_lib cat 3 [2..10] w0)
         \<and> (\<forall>n' m' d'. (n', Inr (m', Fin d')) \<in> set (dic_trials toy_lib cat 3 [2..10] w0)
               \<longrightarrow> d' \<le> d))"
proof -
  have r: "min_n_components cat = 2" "max_n_components cat = 10"
    "int (length (hwords cat)) = 3"
    by (simp_all add: cat_def vocabulary_Xlengths_def)
  show ?thesis
    using SelectorDIC_select_maximal [OF cat_init, of toy_lib w0] toy_dic_select cat_init
    by (simp add: r)
qed

text \<open>
  Claim C10. When the dictionary of concatenated features holds the target
  word only (\<open>M = 1\<close>), \<^verbatim>\<open>SelectorDIC.select()\<close> returns \<^verbatim>\<open>None\<close> for every range of
  state counts: every candidate ends in the handler, at the latest on the
  division of the integer sum \<^verbatim>\<open>0\<close> by \<open>M - 1 = 0\<close>.
\<close>

theorem SelectorDIC_select_single_word:
  assumes "ModelSelector_init aws awx word nc mn mx rs vb = Inr self" and "length awx = 1"
  shows "fst (SelectorDIC_select L self w) = None"
proof -
  from init_hwords [OF assms(1)] assms(2)
  have "length (hwords self) = 1" "map_of (hwords self) (this_word self) \<noteq> None" by auto
  from single_hwords [OF this] obtain v where h: "hwords self = [(this_word self, v)]" ..
  have "fst (snd (dic_loop L self 1 ns (NegInf, None, w))) = None" for ns
    by (rule dic_loop_all_fail) (rule dic_try_single_word [OF h])
  then show ?thesis
    by (simp add: SelectorDIC_select_def h split: prod.splits) (metis fst_conv snd_conv)
qed

theorem SelectorDIC_select_single_word_witness:
  "ModelSelector_init [(''CAT'', [[[1], [2]]])] [(''CAT'', ([[1], [2]], [2]))] ''CAT'' 3 2 10 14 False
     = Inr one_sequence
   \<and> length [(''CAT'', ([[1::real], [2]], [2::nat]))] = 1
   \<and> fst (SelectorDIC_select toy_lib one_sequence w0) = None"
proof -
  have i: "ModelSelector_init [(''CAT'', [[[1], [2]]])] [(''CAT'', ([[1], [2]], [2]))] ''CAT'' 3 2 10 14 False
     = Inr one_sequence"
    by (simp add: ModelSelector_init_def getitem_def one_sequence_def)
  show ?thesis
    using i SelectorDIC_select_single_word [OF i, of toy_lib w0] by simp
qed

section \<open>SelectorCV\<close>

subsection \<open>A single sequence\<close>

lemma cv_try_single:
  "length (sequences self) = 1 \<Longrightarrow> cv_try L self n w = (Inl ValueError, w)"
  by (simp add: cv_try_def KFold_def)

lemma cv_loop_all_fail:
  "(\<And>n w. cv_try L self n w = (Inl ValueError, w)) \<Longrightarrow> cv_loop L self ns (b, bm, w) = (b, bm, w)"
  by (induction ns) simp_all

text \<open>
  Claim C9. For a word with exactly one sequence, \<^verbatim>\<open>SelectorCV.select()\<close> returns
  \<^verbatim>\<open>None\<close> whatever the range of state counts: \<^verbatim>\<open>KFold(1)\<close> raises inside the handler
  for every candidate, before any training, so the shared state is untouched.
\<close>

theorem SelectorCV_select_single_sequence:
  "length (sequences self) = 1 \<Longrightarrow> SelectorCV_select L self w = (None, w)"
  by (simp add: SelectorCV_select_def cv_loop_all_fail cv_try_single)

theorem SelectorCV_select_single_sequence_witness:
  "length (sequences one_sequence) = 1 \<and> SelectorCV_select toy_lib one_sequence w0 = (None, w0)"
  using SelectorCV_select_single_sequence [of one_sequence toy_lib w0]
  by (simp add: one_sequence_def)

subsection \<open>What the sweep returns\<close>

lemma cv_folds_scores:
  "cv_folds L self n folds acc w = (Inr s, w') \<Longrightarrow>
     \<exists>xs. list_all2 (held_out L self n) folds xs \<and> pyval s = pyval acc + sum_list xs"
proof (induction folds arbitrary: acc w)
  case Nil
  then show ?case by simp
next
  case (Cons fd folds)
  obtain tr te where fd: "fd = (tr, te)" by (cases fd)
  from Cons.prems fd obtain X_train lengths_train X_test lengths_test r w1 m x where
    c: "combine_sequences tr (sequences self) = Inr (X_train, lengths_train)"
      "combine_sequences te (sequences self) = Inr (X_test, lengths_test)"
    and f: "GaussianHMM_fit L None n X_train lengths_train w = (Inr m, w1)"
    and sc: "model_score L m X_test lengths_test = Inr x"
    and rest: "cv_folds L self n folds (iadd acc x) w1 = (Inr s, w')"
    by (auto split: sum.splits prod.splits)
  from f have "fst (fit L (rng w) n X_train lengths_train) = Some m"
    by (auto simp: GaussianHMM_fit_def split: prod.splits option.splits)
  moreover from sc have "score L m X_test lengths_test = Some x"
    by (auto simp: model_score_def split: option.splits)
  ultimately have h: "held_out L self n fd x"
    using c fd unfolding held_out_def by auto
  from Cons.IH [OF rest] obtain xs where
    "list_all2 (held_out L self n) folds xs" "pyval s = pyval (iadd acc x) + sum_list xs"
    by blast
  with h have "list_all2 (held_out L self n) (fd # folds) (x # xs)
      \<and> pyval s = pyval acc + sum_list (x # xs)"
    by (cases acc) auto
  then show ?case by blast
qed

lemma length_test_folds: "length (test_folds c sizes) = length sizes"
  by (induction sizes arbitrary: c) auto

lemma KFold_split_length: "KFold_split k n = Inr folds \<Longrightarrow> length folds = k"
  by (auto simp: KFold_split_def length_test_folds fold_sizes_def split: if_splits)

lemma cv_try_average:
  assumes "cv_try L self n w = (Inr a, w')"
  shows "\<exists>folds xs. 2 \<le> min (length (sequences self)) 3
           \<and> KFold_split (min (length (sequences self)) 3) (length (sequences self)) = Inr folds
           \<and> length folds = min (length (sequences self)) 3
           \<and> list_all2 (held_out L self n) folds xs
           \<and> a = Fin (sum_list xs / real (min (length (sequences self)) 3))"
proof -
  let ?k = "min (length (sequences self)) 3"
  have k: "min (int (length (sequences self))) 3 = int ?k" by simp
  from assms have two: "2 \<le> ?k"
    by (auto simp: cv_try_def Let_def KFold_def split: if_splits)
  with assms obtain folds s w1 where
    sp: "KFold_split ?k (length (sequences self)) = Inr folds"
    and f: "cv_folds L self n folds (PyInt 0) w = (Inr s, w1)"
    and d: "truediv s (int ?k) = Inr a"
    unfolding cv_try_def Let_def k KFold_def
    by (auto split: if_splits sum.splits prod.splits)
  from cv_folds_scores [OF f] obtain xs where
    xs: "list_all2 (held_out L self n) folds xs" "pyval s = sum_list xs" by auto
  from two have "int ?k \<noteq> 0" by linarith
  from truediv_nonzero [OF this, of s] d xs(2) have "a = Fin (sum_list xs / real ?k)"
    by simp
  with two sp xs(1) KFold_split_length [OF sp] show ?thesis by blast
qed

lemma cv_try_Fin: "cv_try L self n w = (Inr a, w') \<Longrightarrow> \<exists>x. a = Fin x"
  using cv_try_average by blast

lemma cv_trials_try:
  "(n, Inr a, t) \<in> set (cv_trials L self ns (best, w)) \<Longrightarrow>
     n \<in> set ns \<and> (\<exists>w1 w2. cv_try L self n w1 = (Inr a, w2))"
proof (induction ns arbitrary: best w)
  case Nil
  then show ?case by simp
next
  case (Cons k ns)
  obtain r w1 where c: "cv_try L self k w = (r, w1)" by (cases "cv_try L self k w")
  obtain t2 w2 where f: "GaussianHMM_fit L None k (X self) (lengths self) w1 = (t2, w2)"
    by (cases "GaussianHMM_fit L None k (X self) (lengths self) w1")
  from Cons.prems c f consider "r = Inr a" "k = n"
    | b' w' where "(n, Inr a, t) \<in> set (cv_trials L self ns (b', w'))"
    by (auto split: sum.splits if_splits)
  then show ?case
  proof cases
    case 1
    with c show ?thesis by auto
  next
    case 2
    from Cons.IH [OF this] show ?thesis by auto
  qed
qed

lemma cv_trials_retrained:
  "(n, r, Some (Inr m)) \<in> set (cv_trials L self ns (best, w)) \<Longrightarrow>
     n \<in> set ns \<and> (\<exists>g. fst (fit L g n (X self) (lengths self)) = Some m)"
proof (induction ns arbitrary: best w)
  case Nil
  then show ?case by simp
next
  case (Cons k ns)
  obtain r1 w1 where c: "cv_try L self k w = (r1, w1)" by (cases "cv_try L self k w")
  obtain t2 w2 where f: "GaussianHMM_fit L None k (X self) (lengths self) w1 = (t2, w2)"
    by (cases "GaussianHMM_fit L None k (X self) (lengths self) w1")
  from Cons.prems c f consider "k = n" "t2 = Inr m"
    | b' w' where "(n, r, Some (Inr m)) \<in> set (cv_trials L self ns (b', w'))"
    by (auto split: sum.splits if_splits)
  then show ?case
  proof cases
    case 1
    with f have "fst (fit L (rng w1) n (X self) (lengths self)) = Some m"
      by (auto simp: GaussianHMM_fit_def split: prod.splits option.splits)
    with 1 show ?thesis by auto
  next
    case 2
    from Cons.IH [OF this] show ?thesis by auto
  qed
qed

lemma cv_loop_model:
  "cv_loop L self ns (best, bm, w) = (best', bm', w') \<Longrightarrow>
     bm' = bm \<or> (\<exists>n a m. (n, Inr (Fin a), Some (Inr m)) \<in> set (cv_trials L self ns (best, w))
                    \<and> bm' = Some m)"
proof (induction ns arbitrary: best bm w)
  case Nil
  then show ?case by simp
next
  case (Cons k ns)
  obtain r w1 where c: "cv_try L self k w = (r, w1)" by (cases "cv_try L self k w")
  obtain t2 w2 where f: "GaussianHMM_fit L None k (X self) (lengths self) w1 = (t2, w2)"
    by (cases "GaussianHMM_fit L None k (X self) (lengths self) w1")
  show ?case
  proof (cases r)
    case (Inl e)
    with c Cons.prems have "cv_loop L self ns (best, bm, w1) = (best', bm', w')" by simp
    from Cons.IH [OF this] show ?thesis using c Inl by auto
  next
    case (Inr a0)
    with c cv_try_Fin obtain a where a: "a0 = Fin a" by blast
    show ?thesis
    proof (cases "fgt (Fin a) best")
      case False
      with c Inr a Cons.prems have "cv_loop L self ns (best, bm, w1) = (best', bm', w')" by simp
      from Cons.IH [OF this] show ?thesis using c Inr a False by auto
    next
      case True
      show ?thesis
      proof (cases t2)
        case (Inl e)
        with c f Inr a True Cons.prems
        have "cv_loop L self ns (Fin a, bm, w2) = (best', bm', w')" by simp
        from Cons.IH [OF this] show ?thesis using c f Inr a True Inl by auto
      next
        case m: (Inr m)
        with c f Inr a True Cons.prems
        have "cv_loop L self ns (Fin a, Some m, w2) = (best', bm', w')" by simp
        from Cons.IH [OF this] show ?thesis using c f Inr a True m by auto
      qed
    qed
  qed
qed

lemma cv_loop_result:
  assumes "cv_loop L self ns (best, bm, w) = (best', bm', w')"
    and "\<forall>n r t. (n, r, Some t) \<in> set (cv_trials L self ns (best, w)) \<longrightarrow> \<not> isl t"
  shows "(best' = best \<and> bm' = bm \<and>
        (\<forall>n a t. (n, Inr (Fin a), t) \<in> set (cv_trials L self ns (best, w)) \<longrightarrow> \<not> fgt (Fin a) best))
     \<or> (\<exists>n a m. (n, Inr (Fin a), Some (Inr m)) \<in> set (cv_trials L self ns (best, w))
           \<and> best' = Fin a \<and> bm' = Some m \<and> fgt (Fin a) best
           \<and> (\<forall>n' a' t. (n', Inr (Fin a'), t) \<in> set (cv_trials L self ns (best, w)) \<longrightarrow> a' \<le> a))"
  using assms
proof (induction ns arbitrary: best bm w)
  case Nil
  then show ?case by simp
next
  case (Cons k ns)
  obtain r w1 where c: "cv_try L self k w = (r, w1)" by (cases "cv_try L self k w")
  obtain t2 w2 where f: "GaussianHMM_fit L None k (X self) (lengths self) w1 = (t2, w2)"
    by (cases "GaussianHMM_fit L None k (X self) (lengths self) w1")
  show ?case
  proof (cases r)
    case (Inl e)
    with c Cons.prems have l: "cv_loop L self ns (best, bm, w1) = (best', bm', w')"
      and ok: "\<forall>n r t. (n, r, Some t) \<in> set (cv_trials L self ns (best, w1)) \<longrightarrow> \<not> isl t"
      by auto
    from Cons.IH [OF l ok] show ?thesis using c Inl by auto
  next
    case (Inr a0)
    with c cv_try_Fin obtain a where a: "a0 = Fin a" by blast
    show ?thesis
    proof (cases "fgt (Fin a) best")
      case False
      with c Inr a Cons.prems have l: "cv_loop L self ns (best, bm, w1) = (best', bm', w')"
        and ok: "\<forall>n r t. (n, r, Some t) \<in> set (cv_trials L self ns (best, w1)) \<longrightarrow> \<not> isl t"
        by auto
      from Cons.IH [OF l ok] show ?thesis
      proof (elim disjE conjE exE)
        assume "best' = best" "bm' = bm"
          "\<forall>n a t. (n, Inr (Fin a), t) \<in> set (cv_trials L self ns (best, w1)) \<longrightarrow> \<not> fgt (Fin a) best"
        then show ?thesis using c Inr a False by (intro disjI1) auto
      next
        fix n2 a2 m2
        assume h: "(n2, Inr (Fin a2), Some (Inr m2)) \<in> set (cv_trials L self ns (best, w1))"
          "best' = Fin a2" "bm' = Some m2" "fgt (Fin a2) best"
          "\<forall>n' a' t. (n', Inr (Fin a'), t) \<in> set (cv_trials L self ns (best, w1)) \<longrightarrow> a' \<le> a2"
        with fgt_Fin_between [of a2 best a] False have "a < a2" by simp
        with h c Inr a False
        have "(n2, Inr (Fin a2), Some (Inr m2)) \<in> set (cv_trials L self (k # ns) (best, w))
            \<and> (\<forall>n' a' t. (n', Inr (Fin a'), t) \<in> set (cv_trials L self (k # ns) (best, w)) \<longrightarrow> a' \<le> a2)"
          by auto
        with h show ?thesis by blast
      qed
    next
      case True
      from c f Inr a True Cons.prems(2) have "\<not> isl t2" by simp
      then obtain m where m: "t2 = Inr m" by (cases t2) auto
      with c f Inr a True Cons.prems
      have l: "cv_loop L self ns (Fin a, Some m, w2) = (best', bm', w')"
        and ok: "\<forall>n r t. (n, r, Some t) \<in> set (cv_trials L self ns (Fin a, w2)) \<longrightarrow> \<not> isl t"
        by auto
      have here: "cv_trials L self (k # ns) (best, w)
          = (k, Inr (Fin a), Some (Inr m)) # cv_trials L self ns (Fin a, w2)"
        using c f Inr a True m by simp
      from Cons.IH [OF l ok] show ?thesis
      proof (elim disjE conjE exE)
        assume "best' = Fin a" "bm' = Some m"
          "\<forall>n aa t. (n, Inr (Fin aa), t) \<in> set (cv_trials L self ns (Fin a, w2)) \<longrightarrow> \<not> fgt (Fin aa) (Fin a)"
        with True have "(k, Inr (Fin a), Some (Inr m)) \<in> set (cv_trials L self (k # ns) (best, w))
            \<and> best' = Fin a \<and> bm' = Some m \<and> fgt (Fin a) best
            \<and> (\<forall>n' a' t. (n', Inr (Fin a'), t) \<in> set (cv_trials L self (k # ns) (best, w)) \<longrightarrow> a' \<le> a)"
          unfolding here by (auto simp: not_less)
        then show ?thesis by blast
      next
        fix n2 a2 m2
        assume h: "(n2, Inr (Fin a2), Some (Inr m2)) \<in> set (cv_trials L self ns (Fin a, w2))"
          "best' = Fin a2" "bm' = Some m2" "fgt (Fin a2) (Fin a)"
          "\<forall>n' a' t. (n', Inr (Fin a'), t) \<in> set (cv_trials L self ns (Fin a, w2)) \<longrightarrow> a' \<le> a2"
        then have "a < a2" by simp
        with h True fgt_Fin_trans [of a a2 best]
        have "(n2, Inr (Fin a2), Some (Inr m2)) \<in> set (cv_trials L self (k # ns) (best, w))
            \<and> best' = Fin a2 \<and> bm' = Some m2 \<and> fgt (Fin a2) best
            \<and> (\<forall>n' a' t. (n', Inr (Fin a'), t) \<in> set (cv_trials L self (k # ns) (best, w)) \<longrightarrow> a' \<le> a2)"
          unfolding here by auto
        then show ?thesis by blast
      qed
    qed
  qed
qed

text \<open>
  The part of claim C4 that holds on the code. A model returned by
  \<^verbatim>\<open>SelectorCV.select()\<close> was trained on the whole data of the word,
  \<^verbatim>\<open>(self.X, self.lengths)\<close>, never on a fold, at a state count \<open>n\<close> of the range
  whose average the sweep computed; and when every training on the whole data
  that the sweep attempts succeeds, no candidate has a greater average than this
  \<open>n\<close>. Each average is the sum of the held-out scores of the
  \<open>k = min(3, number of sequences)\<close> folds, divided by \<open>k\<close>; the models trained
  on the folds serve for these scores only.
\<close>

theorem SelectorCV_select_retrained:
  "(\<forall>m. fst (SelectorCV_select L self w) = Some m \<longrightarrow>
      (\<exists>n a. (n, Inr (Fin a), Some (Inr m))
                \<in> set (cv_trials L self [min_n_components self .. max_n_components self] (NegInf, w))
         \<and> min_n_components self \<le> n \<and> n \<le> max_n_components self
         \<and> (\<exists>g. fst (fit L g n (X self) (lengths self)) = Some m)
         \<and> ((\<forall>n' r t. (n', r, Some t)
                \<in> set (cv_trials L self [min_n_components self .. max_n_components self] (NegInf, w))
                \<longrightarrow> \<not> isl t) \<longrightarrow>
             (\<forall>n' a' t. (n', Inr (Fin a'), t)
                \<in> set (cv_trials L self [min_n_components self .. max_n_components self] (NegInf, w))
                \<longrightarrow> a' \<le> a))))
   \<and> (\<forall>n a t. (n, Inr a, t)
          \<in> set (cv_trials L self [min_n_components self .. max_n_components self] (NegInf, w)) \<longrightarrow>
        (\<exists>folds xs. 2 \<le> min (length (sequences self)) 3
           \<and> KFold_split (min (length (sequences self)) 3) (length (sequences self)) = Inr folds
           \<and> length folds = min (length (sequences self)) 3
           \<and> list_all2 (held_out L self n) folds xs
           \<and> a = Fin (sum_list xs / real (min (length (sequences self)) 3))))"
proof (intro conjI allI impI)
  let ?ns = "[min_n_components self .. max_n_components self]"
  let ?T = "cv_trials L self ?ns (NegInf, w)"
  fix m
  assume sel: "fst (SelectorCV_select L self w) = Some m"
  obtain best' bm' w' where l: "cv_loop L self ?ns (NegInf, None, w) = (best', bm', w')"
    by (cases "cv_loop L self ?ns (NegInf, None, w)")
  with sel have bm: "bm' = Some m" by (simp add: SelectorCV_select_def)
  let ?ok = "\<forall>n' r t. (n', r, Some t) \<in> set ?T \<longrightarrow> \<not> isl t"
  have "\<exists>n a. (n, Inr (Fin a), Some (Inr m)) \<in> set ?T
      \<and> (?ok \<longrightarrow> (\<forall>n' a' t. (n', Inr (Fin a'), t) \<in> set ?T \<longrightarrow> a' \<le> a))"
  proof (cases ?ok)
    case True
    from cv_loop_result [OF l True] bm show ?thesis by auto
  next
    case False
    from cv_loop_model [OF l] bm obtain n a where
      "(n, Inr (Fin a), Some (Inr m)) \<in> set ?T" by auto
    with False show ?thesis by blast
  qed
  then obtain n a where na: "(n, Inr (Fin a), Some (Inr m)) \<in> set ?T"
    "?ok \<longrightarrow> (\<forall>n' a' t. (n', Inr (Fin a'), t) \<in> set ?T \<longrightarrow> a' \<le> a)" by blast
  from cv_trials_retrained [OF na(1)]
  have "min_n_components self \<le> n \<and> n \<le> max_n_components self
      \<and> (\<exists>g. fst (fit L g n (X self) (lengths self)) = Some m)" by simp
  with na show "\<exists>n a. (n, Inr (Fin a), Some (Inr m)) \<in> set ?T
         \<and> min_n_components self \<le> n \<and> n \<le> max_n_components self
         \<and> (\<exists>g. fst (fit L g n (X self) (lengths self)) = Some m)
         \<and> (?ok \<longrightarrow> (\<forall>n' a' t. (n', Inr (Fin a'), t) \<in> set ?T \<longrightarrow> a' \<le> a))"
    by blast
next
  fix n a t
  assume "(n, Inr a, t)
          \<in> set (cv_trials L self [min_n_components self .. max_n_components self] (NegInf, w))"
  from cv_trials_try [OF this] obtain w1 w2 where "cv_try L self n w1 = (Inr a, w2)" by blast
  from cv_try_average [OF this]
  show "\<exists>folds xs. 2 \<le> min (length (sequences self)) 3
           \<and> KFold_split (min (length (sequences self)) 3) (length (sequences self)) = Inr folds
           \<and> length folds = min (length (sequences self)) 3
           \<and> list_all2 (held_out L self n) folds xs
           \<and> a = Fin (sum_list xs / real (min (length (sequences self)) 3))" .
qed

lemma cat_split:
  "KFold (min (int (length (sequences cat))) 3) = Inr 3"
  "KFold_split 3 (length (sequences cat)) = Inr [([1, 2], [0]), ([0, 2], [1]), ([0, 1], [2])]"
  by (simp_all add: KFold_def KFold_split_def fold_sizes_def cat_def cat_sequences_def upt_rec)

lemma cat_cv_try:
  "2 \<le> n \<Longrightarrow> cv_try toy_lib cat n w =
     (if n \<le> 3 then
        (Inr (Fin (- 100 * (real_of_int n - 3)\<^sup>2)),
         \<lparr>rng = rng w + 3,
          fits = fits w @ [(n, [[4, 0], [5, 0], [6, 0], [7, 0], [8, 0], [9, 0]], [3, 3]),
                           (n, [[1, 0], [2, 0], [3, 0], [7, 0], [8, 0], [9, 0]], [3, 3]),
                           (n, [[1, 0], [2, 0], [3, 0], [4, 0], [5, 0], [6, 0]], [3, 3])]\<rparr>)
      else if n \<le> 6 then
        (Inl ScoreError,
         \<lparr>rng = rng w + 1,
          fits = fits w @ [(n, [[4, 0], [5, 0], [6, 0], [7, 0], [8, 0], [9, 0]], [3, 3])]\<rparr>)
      else
        (Inl FitError,
         \<lparr>rng = rng w + 1,
          fits = fits w @ [(n, [[4, 0], [5, 0], [6, 0], [7, 0], [8, 0], [9, 0]], [3, 3])]\<rparr>))"
  by (simp add: cv_try_def cat_split Let_def)
    (simp add: cat_def cat_sequences_def combine_sequences_def GaussianHMM_fit_def
      model_score_def toy_lib_def power2_eq_square)

lemma unlucky_cv_try:
  "2 \<le> n \<Longrightarrow> rng w \<notin> {5, 6, 7} \<Longrightarrow> cv_try unlucky_lib cat n w = cv_try toy_lib cat n w"
  by (simp add: cv_try_def cat_split Let_def)
    (simp add: cat_def cat_sequences_def combine_sequences_def GaussianHMM_fit_def
      model_score_def toy_lib_def unlucky_lib_def)

lemma cat_range: "min_n_components cat = 2" "max_n_components cat = 10"
  by (simp_all add: cat_def)

lemma cat_full_fit:
  "GaussianHMM_fit unlucky_lib None n (X cat) (lengths cat) w =
     (if rng w = 7 \<or> n < 1 \<or> 9 < n then Inl FitError else Inr (rng w, n),
      \<lparr>rng = Suc (rng w), fits = fits w @ [(n, cat_X, [3, 3, 3])]\<rparr>)"
  "GaussianHMM_fit toy_lib None n (X cat) (lengths cat) w =
     (if n < 1 \<or> 9 < n then Inl FitError else Inr (rng w, n),
      \<lparr>rng = Suc (rng w), fits = fits w @ [(n, cat_X, [3, 3, 3])]\<rparr>)"
  by (auto simp: GaussianHMM_fit_def unlucky_lib_def toy_lib_def cat_def cat_X_def)

lemma toy_cv_trials:
  "cv_trials toy_lib cat [2..10] (NegInf, w0) =
     [(2, Inr (Fin (- 100)), Some (Inr (3, 2))), (3, Inr (Fin 0), Some (Inr (7, 3))),
      (4, Inl ScoreError, None), (5, Inl ScoreError, None), (6, Inl ScoreError, None),
      (7, Inl FitError, None), (8, Inl FitError, None), (9, Inl FitError, None),
      (10, Inl FitError, None)]"
  by (simp add: cat_cv_try cat_full_fit w0_def fgt_def)

theorem SelectorCV_select_retrained_witness:
  "fst (SelectorCV_select toy_lib cat w0) = Some (7, 3)
   \<and> (\<exists>n a. (n, Inr (Fin a), Some (Inr (7, 3))) \<in> set (cv_trials toy_lib cat [2..10] (NegInf, w0))
         \<and> (\<exists>g. fst (fit toy_lib g n (X cat) (lengths cat)) = Some (7, 3))
         \<and> (\<forall>n' a' t. (n', Inr (Fin a'), t) \<in> set (cv_trials toy_lib cat [2..10] (NegInf, w0))
               \<longrightarrow> a' \<le> a))"
proof -
  have e: "fst (SelectorCV_select toy_lib cat w0) = Some (7, 3)"
    by (simp add: SelectorCV_select_def cat_range cat_cv_try cat_full_fit w0_def fgt_def)
  have ok: "\<forall>n' r t. (n', r, Some t) \<in> set (cv_trials toy_lib cat [2..10] (NegInf, w0)) \<longrightarrow> \<not> isl t"
    unfolding toy_cv_trials by auto
  from SelectorCV_select_retrained [of toy_lib cat w0] e ok show ?thesis
    unfolding cat_range by blast
qed

text \<open>
  Claim C4. The model returned by \<^verbatim>\<open>SelectorCV.select()\<close> should be the one
  trained on the whole data at the state count of highest average. The code
  misses this when the training on the whole data raises. Here the averages are
  \<open>-100\<close> at two states and \<open>0\<close> at three, and every other candidate fails. The
  code assigns \<^verbatim>\<open>best_cv = 0\<close> and then trains on the whole data at three states;
  that training raises, the handler passes, and \<^verbatim>\<open>best_model\<close> stays the model
  of two states, which is returned although three states have the highest
  average. With the training succeeding, the model of three states is returned.
\<close>

theorem SelectorCV_select_stale_model:
  "cv_trials unlucky_lib cat [2..10] (NegInf, w0) =
     [(2, Inr (Fin (- 100)), Some (Inr (3, 2))), (3, Inr (Fin 0), Some (Inl FitError)),
      (4, Inl ScoreError, None), (5, Inl ScoreError, None), (6, Inl ScoreError, None),
      (7, Inl FitError, None), (8, Inl FitError, None), (9, Inl FitError, None),
      (10, Inl FitError, None)]
   \<and> fst (SelectorCV_select unlucky_lib cat w0) = Some (3, 2)
   \<and> fst (SelectorCV_select toy_lib cat w0) = Some (7, 3)"
  by (simp add: SelectorCV_select_def cat_range unlucky_cv_try cat_cv_try cat_full_fit w0_def
      fgt_def)

section \<open>The recogniser: tables and guesses\<close>

lemma update_fresh: "k \<notin> fst ` set acc \<Longrightarrow> AList.update k v acc = acc @ [(k, v)]"
  by (induction acc) auto

lemma score_words_scored:
  "distinct ws \<Longrightarrow> set ws \<inter> fst ` set acc = {} \<Longrightarrow>
     score_words L models ws fs ls acc =
       acc @ List.map_filter
         (\<lambda>word. case map_of models word of
                 None \<Rightarrow> None
               | Some m \<Rightarrow> (case score L m fs ls of None \<Rightarrow> None | Some logL \<Rightarrow> Some (word, logL)))
         ws"
proof (induction ws arbitrary: acc)
  case Nil
  then show ?case by (simp add: map_filter_simps)
next
  case (Cons a ws)
  then show ?case
    by (auto simp: map_filter_simps getitem_def model_score_def update_fresh
        split: option.splits)
qed

lemma map_fst_map_filter:
  "(\<And>x y. f x = Some y \<Longrightarrow> fst y = x) \<Longrightarrow> distinct xs \<Longrightarrow>
     distinct (map fst (List.map_filter f xs))"
proof (induction xs)
  case Nil
  then show ?case by (simp add: map_filter_simps)
next
  case (Cons a xs)
  have "fst ` set (List.map_filter f xs) \<subseteq> set xs"
    using Cons.prems(1) by (fastforce simp: map_filter_def)
  with Cons show ?case
    by (cases "f a") (auto simp: map_filter_simps)
qed

lemma scored_keys: "distinct (keys models) \<Longrightarrow> distinct (map fst (scored L models item))"
  unfolding scored_def
  by (cases item) (auto intro!: map_fst_map_filter split: option.splits)

lemma map_of_scored:
  "distinct (keys models) \<Longrightarrow>
     map_of (scored L models (fs, ls)) word =
       (case map_of models word of None \<Rightarrow> None | Some m \<Rightarrow> score L m fs ls)"
proof -
  let ?f = "\<lambda>word. case map_of models word of
                      None \<Rightarrow> None
                    | Some m \<Rightarrow> (case score L m fs ls of
                                  None \<Rightarrow> None
                                | Some logL \<Rightarrow> Some (word, logL))"
  have "map_of (List.map_filter ?f ws) word =
      (if word \<in> set ws then (case map_of models word of None \<Rightarrow> None | Some m \<Rightarrow> score L m fs ls)
       else None)" for ws
    by (induction ws) (auto simp: map_filter_simps split: option.splits)
  moreover have "word \<notin> set (keys models) \<Longrightarrow> map_of models word = None"
    by (simp add: keys_def map_of_eq_None_iff)
  ultimately show ?thesis
    by (auto simp: scored_def)
qed

lemma max_loop_pairs:
  assumes "\<forall>q \<in> set qs. key (fst q) = Inr (snd q)"
  shows "\<exists>pre r vr post. max_loop key (map fst qs) w v = Inr r \<and> (w, v) # qs = pre @ (r, vr) # post
           \<and> (\<forall>q \<in> set pre. snd q < vr) \<and> (\<forall>q \<in> set post. snd q \<le> vr)"
  using assms
proof (induction qs arbitrary: w v)
  case Nil
  show ?case by (rule exI [of _ "[]"]) simp
next
  case (Cons q qs)
  obtain a b where q: "q = (a, b)" by (cases q)
  with Cons.prems have k: "key a = Inr b" and rest: "\<forall>q \<in> set qs. key (fst q) = Inr (snd q)"
    by auto
  show ?case
  proof (cases "v < b")
    case True
    from Cons.IH [OF rest, of a b] obtain pre r vr post where
      h: "max_loop key (map fst qs) a b = Inr r" "(a, b) # qs = pre @ (r, vr) # post"
        "\<forall>q \<in> set pre. snd q < vr" "\<forall>q \<in> set post. snd q \<le> vr" by blast
    from h(2) have "(a, b) \<in> set (pre @ (r, vr) # post)" by (metis list.set_intros(1))
    with h(3,4) have "b \<le> vr" by fastforce
    with True h(1,3,4) q k
    have "max_loop key (map fst (q # qs)) w v = Inr r
        \<and> (\<forall>q \<in> set ((w, v) # pre). snd q < vr) \<and> (\<forall>q \<in> set post. snd q \<le> vr)"
      by auto
    moreover from h(2) q have "(w, v) # q # qs = ((w, v) # pre) @ (r, vr) # post" by simp
    ultimately show ?thesis by blast
  next
    case False
    from Cons.IH [OF rest, of w v] obtain pre r vr post where
      h: "max_loop key (map fst qs) w v = Inr r" "(w, v) # qs = pre @ (r, vr) # post"
        "\<forall>q \<in> set pre. snd q < vr" "\<forall>q \<in> set post. snd q \<le> vr" by blast
    show ?thesis
    proof (cases pre)
      case Nil
      with h(2) have e: "r = w" "vr = v" "post = qs" by auto
      with h(1,4) False q k
      have "max_loop key (map fst (q # qs)) w v = Inr r
          \<and> (\<forall>q \<in> set []. snd q < vr) \<and> (\<forall>q' \<in> set (q # qs). snd q' \<le> vr)"
        by auto
      moreover from e have "(w, v) # q # qs = [] @ (r, vr) # (q # qs)" by simp
      ultimately show ?thesis by blast
    next
      case (Cons p pre')
      with h(2) have p: "p = (w, v)" "qs = pre' @ (r, vr) # post" by auto
      with h(3) Cons have "v < vr" by auto
      with h(1,3,4) False q k Cons
      have "max_loop key (map fst (q # qs)) w v = Inr r
          \<and> (\<forall>q' \<in> set ((w, v) # q # pre'). snd q' < vr) \<and> (\<forall>q \<in> set post. snd q \<le> vr)"
        by auto
      moreover from p have "(w, v) # q # qs = ((w, v) # q # pre') @ (r, vr) # post" by simp
      ultimately show ?thesis by blast
    qed
  qed
qed

lemma py_max_table:
  assumes "distinct (map fst p)" "p \<noteq> []"
  shows "\<exists>g. py_max (keys p) (getitem p) = Inr g \<and> first_argmax p g"
proof -
  from assms(2) obtain w v qs where p: "p = (w, v) # qs" by (cases p) auto
  have k: "\<forall>q \<in> set p. getitem p (fst q) = Inr (snd q)"
    using assms(1) by (auto simp: getitem_def)
  with p have "\<forall>q \<in> set qs. getitem p (fst q) = Inr (snd q)" by simp
  from max_loop_pairs [OF this, of w v] obtain pre r vr post where
    m: "max_loop (getitem p) (map fst qs) w v = Inr r" and e: "(w, v) # qs = pre @ (r, vr) # post"
    and o: "\<forall>q \<in> set pre. snd q < vr" "\<forall>q \<in> set post. snd q \<le> vr" by blast
  from k p have "getitem p w = Inr v" by simp
  with m have "py_max (keys p) (getitem p) = Inr r"
    by (simp add: py_max_def keys_def p)
  moreover from e o p have "first_argmax p r"
    unfolding first_argmax_def by blast
  ultimately show ?thesis by blast
qed

lemma guess_all_ok:
  "\<forall>p \<in> set ps. distinct (map fst p) \<and> p \<noteq> [] \<Longrightarrow>
     \<exists>gs. guess_all ps = Inr gs \<and> list_all2 first_argmax ps gs"
proof (induction ps)
  case Nil
  then show ?case by simp
next
  case (Cons p ps)
  then obtain gs where "guess_all ps = Inr gs" "list_all2 first_argmax ps gs" by auto
  moreover from Cons.prems py_max_table [of p] obtain g where
    "py_max (keys p) (getitem p) = Inr g" "first_argmax p g" by auto
  ultimately show ?case by simp
qed

lemma guess_all_Inr: "guess_all ps = Inr gs \<Longrightarrow> [] \<notin> set ps"
  by (induction ps arbitrary: gs) (auto simp: py_max_def keys_def split: sum.splits)

lemma recognize_probabilities:
  assumes "distinct (keys models)"
  shows "map (\<lambda>i. case get_item_Xlengths test_set i of
                        (fs, ls) \<Rightarrow> score_words L models (keys models) fs ls [])
              [0..<num_items test_set] = map (scored L models) test_set"
proof -
  have "score_words L models (keys models) fs ls [] = scored L models (fs, ls)" for fs ls
    using score_words_scored [OF assms, of "[]" L models fs ls] by (simp add: scored_def)
  then have "(\<lambda>i. case get_item_Xlengths test_set i of
                        (fs, ls) \<Rightarrow> score_words L models (keys models) fs ls [])
      = (\<lambda>i. scored L models (test_set ! i))"
    by (auto simp: get_item_Xlengths_def fun_eq_iff split: prod.splits)
  moreover have "map (\<lambda>i. scored L models (test_set ! i)) [0..<length test_set]
      = map (scored L models) test_set"
    by (rule nth_equalityI) simp_all
  ultimately show ?thesis by (simp add: num_items_def)
qed

lemma recognize_returns:
  assumes "distinct (keys models)" "\<forall>item \<in> set test_set. scored L models item \<noteq> []"
  shows "\<exists>probabilities guesses. recognize L models test_set = Inr (probabilities, guesses)"
proof -
  from assms(2) have "\<forall>p \<in> set (map (scored L models) test_set). distinct (map fst p) \<and> p \<noteq> []"
    using scored_keys [OF assms(1)] by auto
  from guess_all_ok [OF this] show ?thesis
    by (auto simp: recognize_def Let_def recognize_probabilities [OF assms(1)])
qed

lemma recognize_result:
  assumes "distinct (keys models)"
    and r: "recognize L models test_set = Inr (probabilities, guesses)"
  shows "probabilities = map (scored L models) test_set"
    and "list_all2 first_argmax probabilities guesses"
proof -
  from r show p: "probabilities = map (scored L models) test_set"
    by (auto simp: recognize_def Let_def recognize_probabilities [OF assms(1)] split: sum.splits)
  from r have g: "guess_all (map (scored L models) test_set) = Inr guesses"
    by (auto simp: recognize_def Let_def recognize_probabilities [OF assms(1)] split: sum.splits)
  from guess_all_Inr [OF g]
  have "\<forall>p \<in> set (map (scored L models) test_set). distinct (map fst p) \<and> p \<noteq> []"
    using scored_keys [OF assms(1)] by fastforce
  from guess_all_ok [OF this] g p show "list_all2 first_argmax probabilities guesses" by simp
qed

text \<open>
  The part of claim C5 that holds on the code. Let \<^verbatim>\<open>models\<close> be a dictionary.
  Whenever every test item is scored by at least one word model, \<^verbatim>\<open>recognize\<close>
  returns; and whenever it returns, both lists have one entry per test item, in
  the test set's order, the table of item \<open>i\<close> holds exactly the words whose
  scoring of the item succeeded (with their log-likelihoods, in the order of
  \<^verbatim>\<open>models\<close>), and guess \<open>i\<close> is the first key of greatest log-likelihood in table
  \<open>i\<close>.
\<close>

theorem recognize_aligned:
  assumes "distinct (keys models)"
  shows "((\<forall>item \<in> set test_set. scored L models item \<noteq> []) \<longrightarrow>
           (\<exists>probabilities guesses. recognize L models test_set = Inr (probabilities, guesses)))
   \<and> (\<forall>probabilities guesses. recognize L models test_set = Inr (probabilities, guesses) \<longrightarrow>
         length probabilities = num_items test_set \<and> length guesses = num_items test_set
         \<and> (\<forall>i < num_items test_set.
               probabilities ! i = scored L models (test_set ! i)
               \<and> first_argmax (probabilities ! i) (guesses ! i)))"
proof -
  have "length probabilities = num_items test_set \<and> length guesses = num_items test_set
         \<and> (\<forall>i < num_items test_set.
               probabilities ! i = scored L models (test_set ! i)
               \<and> first_argmax (probabilities ! i) (guesses ! i))"
    if r: "recognize L models test_set = Inr (probabilities, guesses)" for probabilities guesses
    using recognize_result [OF assms r]
    by (auto simp: num_items_def list_all2_conv_all_nth)
  with recognize_returns [OF assms] show ?thesis by blast
qed

lemma toy_recognize:
  "recognize toy_lib toy_models [item_three, item_five] =
     Inr ([[(''CAT'', - 100), (''DOG'', 0)], [(''CAT'', - 900), (''DOG'', - 400), (''BIRD'', 0)]],
          [''DOG'', ''BIRD''])"
  by (simp add: recognize_def num_items_def get_item_Xlengths_def toy_models_def item_three_def
      item_five_def keys_def getitem_def model_score_def toy_lib_def py_max_def upt_rec)

theorem recognize_aligned_witness:
  "distinct (keys toy_models)
   \<and> recognize toy_lib toy_models [item_three, item_five] =
       Inr ([[(''CAT'', - 100), (''DOG'', 0)], [(''CAT'', - 900), (''DOG'', - 400), (''BIRD'', 0)]],
            [''DOG'', ''BIRD''])
   \<and> scored toy_lib toy_models item_three = [(''CAT'', - 100), (''DOG'', 0)]
   \<and> first_argmax [(''CAT'', - 100), (''DOG'', 0)] ''DOG''
   \<and> first_argmax [(''CAT'', - 900), (''DOG'', - 400), (''BIRD'', 0)] ''BIRD''"
proof -
  let ?P = "[[(''CAT'', - 100), (''DOG'', 0)], [(''CAT'', - 900), (''DOG'', - 400), (''BIRD'', 0 :: real)]]"
  let ?G = "[''DOG'', ''BIRD'']"
  have d: "distinct (keys toy_models)" by (simp add: toy_models_def keys_def)
  from recognize_aligned [OF d, of "[item_three, item_five]" toy_lib] toy_recognize
  have a: "\<forall>i < num_items [item_three, item_five].
          ?P ! i = scored toy_lib toy_models ([item_three, item_five] ! i)
        \<and> first_argmax (?P ! i) (?G ! i)"
    by blast
  have n: "0 < num_items [item_three, item_five]" "1 < num_items [item_three, item_five]"
    by (simp_all add: num_items_def)
  from a [rule_format, OF n(1)] have "first_argmax (?P ! 0) (?G ! 0)" by (rule conjunct2)
  then have f0: "first_argmax [(''CAT'', - 100), (''DOG'', 0)] ''DOG''" by simp
  from a [rule_format, OF n(2)] have "first_argmax (?P ! 1) (?G ! 1)" by (rule conjunct2)
  then have f1: "first_argmax [(''CAT'', - 900), (''DOG'', - 400), (''BIRD'', 0)] ''BIRD''" by simp
  from a [rule_format, OF n(1)] have "?P ! 0 = scored toy_lib toy_models ([item_three, item_five] ! 0)"
    by (rule conjunct1)
  then have s0: "scored toy_lib toy_models item_three = [(''CAT'', - 100), (''DOG'', 0)]" by simp
  from d toy_recognize s0 f0 f1 show ?thesis by simp
qed

text \<open>
  Claim C5. For every dictionary of models and every test set, \<^verbatim>\<open>recognize\<close>
  should return two lists of one entry per test item. With the single-frame
  item first, no model scores it, its table is empty, and \<^verbatim>\<open>max\<close> raises
  ValueError out of \<^verbatim>\<open>recognize\<close>: no list is returned, for the scorable second
  item either.
\<close>

theorem recognize_returns_no_lists:
  "recognize toy_lib toy_models [item_one, item_three] = Inl ValueError
   \<and> \<not> (\<exists>probabilities guesses.
          recognize toy_lib toy_models [item_one, item_three] = Inr (probabilities, guesses)
          \<and> length probabilities = 2 \<and> length guesses = 2)"
  by (simp add: recognize_def num_items_def get_item_Xlengths_def
      toy_models_def item_three_def item_one_def keys_def getitem_def
      model_score_def toy_lib_def py_max_def upt_rec)

text \<open>
  Claim C1. The specification asks for a documented sentinel guess when an item
  is scored by no model. The code has none: here no model scores test item 2,
  its table is empty, and the whole call raises the ValueError of \<^verbatim>\<open>max\<close> on an
  empty sequence.
\<close>

theorem recognize_unscored_item:
  "scored toy_lib toy_models item_one = []
   \<and> recognize toy_lib toy_models [item_three, item_five, item_one] = Inl ValueError"
  by (simp add: scored_def map_filter_simps recognize_def num_items_def get_item_Xlengths_def
      toy_models_def item_three_def item_five_def item_one_def keys_def getitem_def
      model_score_def toy_lib_def py_max_def upt_rec)

section \<open>Repeated calls\<close>

lemma toy_bic_select_any:
  "fst (SelectorBIC_select toy_lib cat w) = Some (rng w + 7, 9)"
  "rng (snd (SelectorBIC_select toy_lib cat w)) = rng w + 9"
proof -
  define l where "l = ln (9::real)"
  have b: "0 \<le> l" "l \<le> 8"
    using ln9_bounds by (simp_all add: l_def)
  have t: "bic_try toy_lib cat n w =
     (if 1 \<le> n \<and> n \<le> 9
      then Inr ((rng w, n), 200 * (real_of_int n - 9)\<^sup>2 + real_of_int (n\<^sup>2 + 4 * n - 1) * l)
      else Inl FitError,
      \<lparr>rng = Suc (rng w), fits = fits w @ [(n, cat_X, [3, 3, 3])]\<rparr>)" for n w
    unfolding l_def by (rule toy_bic_try)
  show "fst (SelectorBIC_select toy_lib cat w) = Some (rng w + 7, 9)"
    "rng (snd (SelectorBIC_select toy_lib cat w)) = rng w + 9"
    using b by (simp_all add: SelectorBIC_select_def t cat_range)
qed

lemma toy_dic_select_any:
  "fst (SelectorDIC_select toy_lib cat w) = Some (rng w + 1, 3)"
  "rng (snd (SelectorDIC_select toy_lib cat w)) = rng w + 9"
proof -
  have r: "int (length (hwords cat)) = 3"
    by (simp add: cat_def vocabulary_Xlengths_def)
  show "fst (SelectorDIC_select toy_lib cat w) = Some (rng w + 1, 3)"
    "rng (snd (SelectorDIC_select toy_lib cat w)) = rng w + 9"
    by (simp_all add: SelectorDIC_select_def toy_dic_try r cat_range fgt_def)
qed

lemma toy_cv_select_any:
  "fst (SelectorCV_select toy_lib cat w) = Some (rng w + 7, 3)"
  "rng (snd (SelectorCV_select toy_lib cat w)) = rng w + 15"
  by (simp_all add: SelectorCV_select_def cat_range cat_cv_try cat_full_fit fgt_def)

text \<open>
  Claim C7. \<^verbatim>\<open>SelectorBIC\<close>, \<^verbatim>\<open>SelectorDIC\<close> and \<^verbatim>\<open>SelectorCV\<close> build their models
  with no \<^verbatim>\<open>random_state\<close>, so every training draws from the global generator and
  advances it: a second \<^verbatim>\<open>select()\<close> on the same selector, in the state the first
  left, returns another model. \<^verbatim>\<open>SelectorConstant\<close> goes through \<^verbatim>\<open>base_model\<close>,
  which passes \<^verbatim>\<open>random_state\<close>, and returns the same model twice.
\<close>

theorem select_twice_differs:
  "fst (SelectorBIC_select toy_lib cat w0) = Some (7, 9)
   \<and> fst (SelectorBIC_select toy_lib cat (snd (SelectorBIC_select toy_lib cat w0))) = Some (16, 9)
   \<and> fst (SelectorDIC_select toy_lib cat w0) = Some (1, 3)
   \<and> fst (SelectorDIC_select toy_lib cat (snd (SelectorDIC_select toy_lib cat w0))) = Some (10, 3)
   \<and> fst (SelectorCV_select toy_lib cat w0) = Some (7, 3)
   \<and> fst (SelectorCV_select toy_lib cat (snd (SelectorCV_select toy_lib cat w0))) = Some (22, 3)
   \<and> fst (SelectorConstant_select toy_lib cat w0) = Some (14, 3)
   \<and> fst (SelectorConstant_select toy_lib cat (snd (SelectorConstant_select toy_lib cat w0)))
       = Some (14, 3)"
  by (simp add: toy_bic_select_any toy_dic_select_any toy_cv_select_any w0_def)
    (simp add: SelectorConstant_select_def base_model_def GaussianHMM_fit_def toy_lib_def cat_def
      cat_X_def)

section \<open>Where a failure is caught\<close>

lemma cv_folds_append:
  "cv_folds L self n (pre @ rest) s w =
     (case cv_folds L self n pre s w of
        (Inl e, w1) \<Rightarrow> (Inl e, w1)
      | (Inr s1, w1) \<Rightarrow> cv_folds L self n rest s1 w1)"
  by (induction pre arbitrary: s w) (auto split: sum.splits prod.splits)

lemma cv_folds_failing_fold:
  "isl (fst (cv_folds L self n [fd] s w)) \<Longrightarrow> isl (fst (cv_folds L self n (fd # post) s w))"
  by (cases fd) (auto split: sum.splits prod.splits)

lemma cv_try_failing_fold:
  assumes "KFold (min (int (length (sequences self))) 3) = Inr k"
    and "KFold_split k (length (sequences self)) = Inr (pre @ fd # post)"
    and "cv_folds L self n pre (PyInt 0) w = (Inr sm, wm)"
    and "isl (fst (cv_folds L self n [fd] sm wm))"
  shows "isl (fst (cv_try L self n w))"
proof -
  from cv_folds_failing_fold [OF assms(4), of post] assms(3)
  have "isl (fst (cv_folds L self n (pre @ fd # post) (PyInt 0) w))"
    by (simp add: cv_folds_append)
  with assms(1,2) show ?thesis
    by (auto simp: cv_try_def Let_def isl_def split: prod.splits sum.splits)
qed

lemma bic_try_fits:
  "fits (snd (bic_try L self n w)) = fits w @ [(n, X self, lengths self)]"
  by (auto simp: bic_try_def GaussianHMM_fit_def Let_def
      split: prod.splits sum.splits option.splits list.splits)

lemma bic_loop_fits:
  "map fst (fits (snd (snd (bic_loop L self ns (b, bm, w))))) = map fst (fits w) @ ns"
proof (induction ns arbitrary: b bm w)
  case Nil
  show ?case by simp
next
  case (Cons n ns)
  obtain r wm where t: "bic_try L self n w = (r, wm)" by (cases "bic_try L self n w")
  with bic_try_fits [of L self n w] have "map fst (fits wm) = map fst (fits w) @ [n]" by simp
  with t Cons.IH [of _ _ wm] show ?case
    by (auto split: sum.splits)
qed

lemma dic_try_fits:
  "fits (snd (dic_try L self M n w)) = fits w @ [(n, X self, lengths self)]"
  by (auto simp: dic_try_def GaussianHMM_fit_def Let_def
      split: prod.splits sum.splits option.splits)

lemma dic_loop_fits:
  "map fst (fits (snd (snd (dic_loop L self M ns (b, bm, w))))) = map fst (fits w) @ ns"
proof (induction ns arbitrary: b bm w)
  case Nil
  show ?case by simp
next
  case (Cons n ns)
  obtain r wm where t: "dic_try L self M n w = (r, wm)" by (cases "dic_try L self M n w")
  with dic_try_fits [of L self M n w] have "map fst (fits wm) = map fst (fits w) @ [n]" by simp
  with t Cons.IH [of _ _ wm] show ?case
    by (auto split: sum.splits)
qed

lemma cv_trials_candidates: "map fst (cv_trials L self ns (b, w)) = ns"
  by (induction ns arbitrary: b w) (auto split: prod.splits sum.splits)

lemma GaussianHMM_fit_fits:
  "fits (snd (GaussianHMM_fit L rs n fs ls w)) = fits w @ [(n, fs, ls)]"
  by (auto simp: GaussianHMM_fit_def split: option.splits prod.splits)

lemma cv_folds_fits:
  "\<exists>j. map fst (fits (snd (cv_folds L self n folds s w))) = map fst (fits w) @ replicate j n"
proof (induction folds arbitrary: s w)
  case Nil
  show ?case by (rule exI [of _ 0]) simp
next
  case (Cons fd folds)
  obtain tr te where fd: "fd = (tr, te)" by (cases fd)
  show ?case
  proof (cases "combine_sequences tr (sequences self)")
    case (Inl e)
    with fd show ?thesis by (intro exI [of _ 0]) simp
  next
    case tr: (Inr p)
    obtain X_train lengths_train where p: "p = (X_train, lengths_train)" by (cases p)
    show ?thesis
    proof (cases "combine_sequences te (sequences self)")
      case (Inl e)
      with fd tr p show ?thesis by (intro exI [of _ 0]) simp
    next
      case te: (Inr q)
      obtain X_test lengths_test where q: "q = (X_test, lengths_test)" by (cases q)
      obtain r w1 where f: "GaussianHMM_fit L None n X_train lengths_train w = (r, w1)"
        by (cases "GaussianHMM_fit L None n X_train lengths_train w")
      with GaussianHMM_fit_fits [of L None n X_train lengths_train w]
      have w1: "map fst (fits w1) = map fst (fits w) @ replicate 1 n" by simp
      show ?thesis
      proof (cases r)
        case (Inl e)
        with fd tr p te q f w1 show ?thesis by (intro exI [of _ 1]) simp
      next
        case m: (Inr m)
        show ?thesis
        proof (cases "model_score L m X_test lengths_test")
          case (Inl e)
          with fd tr p te q f m w1 show ?thesis by (intro exI [of _ 1]) simp
        next
          case (Inr x)
          from Cons.IH [of "iadd s x" w1] obtain j where
            "map fst (fits (snd (cv_folds L self n folds (iadd s x) w1)))
               = map fst (fits w1) @ replicate j n" ..
          with fd tr p te q f m Inr w1 show ?thesis
            by (intro exI [of _ "Suc j"]) (simp add: replicate_app_Cons_same)
        qed
      qed
    qed
  qed
qed

lemma cv_folds_fits_first:
  assumes "combine_sequences tr (sequences self) = Inr (X_train, lengths_train)"
    and "combine_sequences te (sequences self) = Inr (X_test, lengths_test)"
  shows "\<exists>j. 1 \<le> j \<and> map fst (fits (snd (cv_folds L self n ((tr, te) # rest) s w)))
            = map fst (fits w) @ replicate j n"
proof -
  obtain r w1 where f: "GaussianHMM_fit L None n X_train lengths_train w = (r, w1)"
    by (cases "GaussianHMM_fit L None n X_train lengths_train w")
  with GaussianHMM_fit_fits [of L None n X_train lengths_train w]
  have w1: "map fst (fits w1) = map fst (fits w) @ replicate 1 n" by simp
  show ?thesis
  proof (cases r)
    case (Inl e)
    with assms f w1 show ?thesis by (intro exI [of _ 1]) simp
  next
    case m: (Inr m)
    show ?thesis
    proof (cases "model_score L m X_test lengths_test")
      case (Inl e)
      with assms f m w1 show ?thesis by (intro exI [of _ 1]) simp
    next
      case (Inr x)
      from cv_folds_fits [of L self n rest "iadd s x" w1] obtain j where
        "map fst (fits (snd (cv_folds L self n rest (iadd s x) w1)))
           = map fst (fits w1) @ replicate j n" ..
      with assms f m Inr w1 show ?thesis
        by (intro exI [of _ "Suc j"]) (simp add: replicate_app_Cons_same)
    qed
  qed
qed

lemma KFold_split_first:
  assumes "2 \<le> k" "KFold_split k n = Inr folds"
  shows "\<exists>tr te rest. folds = (tr, te) # rest \<and> (\<forall>i \<in> set tr. i < n) \<and> (\<forall>i \<in> set te. i < n)"
proof -
  from assms(2) have kn: "k \<le> n"
    by (auto simp: KFold_split_def split: if_splits)
  from assms(1) obtain k' where k: "k = Suc k'" by (cases k) auto
  let ?s0 = "n div k + (if 0 < n mod k then 1 else 0)"
  have "n div k < n" using assms(1) kn by (intro div_less_dividend) auto
  then have s0: "?s0 \<le> n" by auto
  have "fold_sizes k n = ?s0 # map (\<lambda>i. n div k + (if i < n mod k then 1 else 0)) [1..<k]"
    unfolding fold_sizes_def k by (simp add: upt_rec [of 0])
  with assms(2) kn obtain rest where
    "folds = (filter (\<lambda>i. i \<notin> set [0..<?s0]) [0..<n], [0..<?s0]) # rest"
    by (auto simp: KFold_split_def)
  with s0 show ?thesis by auto
qed

lemma combine_sequences_in_range:
  "\<forall>i \<in> set ixs. i < length seqs \<Longrightarrow> \<exists>fs ls. combine_sequences ixs seqs = Inr (fs, ls)"
  by (auto simp: combine_sequences_def Let_def)

lemma cv_try_fits:
  assumes "2 \<le> length (sequences self)"
  shows "\<exists>j. 1 \<le> j \<and> map fst (fits (snd (cv_try L self n w))) = map fst (fits w) @ replicate j n"
proof -
  let ?k = "min (length (sequences self)) 3"
  have k: "min (int (length (sequences self))) 3 = int ?k" by simp
  from assms have two: "2 \<le> ?k" by simp
  have "?k \<le> length (sequences self)" by simp
  then obtain folds where sp: "KFold_split ?k (length (sequences self)) = Inr folds"
    by (auto simp: KFold_split_def)
  from KFold_split_first [OF two sp] obtain tr te rest where
    fs: "folds = (tr, te) # rest" and r: "\<forall>i \<in> set tr. i < length (sequences self)"
      "\<forall>i \<in> set te. i < length (sequences self)" by blast
  from combine_sequences_in_range [OF r(1)] combine_sequences_in_range [OF r(2)]
  obtain X_train lengths_train X_test lengths_test where
    c: "combine_sequences tr (sequences self) = Inr (X_train, lengths_train)"
      "combine_sequences te (sequences self) = Inr (X_test, lengths_test)" by blast
  from cv_folds_fits_first [OF c, of L n rest "PyInt 0" w] obtain j where
    j: "1 \<le> j" "map fst (fits (snd (cv_folds L self n folds (PyInt 0) w)))
            = map fst (fits w) @ replicate j n" unfolding fs by blast
  have "snd (cv_try L self n w) = snd (cv_folds L self n folds (PyInt 0) w)"
    using two sp unfolding cv_try_def Let_def k KFold_def
    by (auto split: sum.splits prod.splits)
  with j show ?thesis by auto
qed

lemma cv_loop_fits:
  assumes "2 \<le> length (sequences self)"
  shows "\<exists>js. length js = length ns \<and> (\<forall>j \<in> set js. 1 \<le> j)
     \<and> map fst (fits (snd (snd (cv_loop L self ns (b, bm, w)))))
         = map fst (fits w) @ concat (map (\<lambda>(j, n). replicate j n) (zip js ns))"
proof (induction ns arbitrary: b bm w)
  case Nil
  show ?case by simp
next
  case (Cons n ns)
  obtain r w1 where c: "cv_try L self n w = (r, w1)" by (cases "cv_try L self n w")
  from cv_try_fits [OF assms, of L n w] c obtain j where
    j: "1 \<le> j" "map fst (fits w1) = map fst (fits w) @ replicate j n" by auto
  obtain t2 w2 where f: "GaussianHMM_fit L None n (X self) (lengths self) w1 = (t2, w2)"
    by (cases "GaussianHMM_fit L None n (X self) (lengths self) w1")
  with GaussianHMM_fit_fits [of L None n "X self" "lengths self" w1] j
  have w2: "map fst (fits w2) = map fst (fits w) @ replicate (Suc j) n"
    by (simp add: replicate_append_same)
  consider (one) b' bm' where
      "cv_loop L self (n # ns) (b, bm, w) = cv_loop L self ns (b', bm', w1)"
    | (two) b' bm' where
      "cv_loop L self (n # ns) (b, bm, w) = cv_loop L self ns (b', bm', w2)"
  proof (cases r)
    case (Inl e)
    with c have "cv_loop L self (n # ns) (b, bm, w) = cv_loop L self ns (b, bm, w1)" by simp
    then show ?thesis by (rule one)
  next
    case (Inr a)
    show ?thesis
    proof (cases "fgt a b")
      case False
      with c Inr have "cv_loop L self (n # ns) (b, bm, w) = cv_loop L self ns (b, bm, w1)"
        by simp
      then show ?thesis by (rule one)
    next
      case True
      show ?thesis
      proof (cases t2)
        case (Inl e)
        with c f Inr True
        have "cv_loop L self (n # ns) (b, bm, w) = cv_loop L self ns (a, bm, w2)" by simp
        then show ?thesis by (rule two)
      next
        case m: (Inr m)
        with c f Inr True
        have "cv_loop L self (n # ns) (b, bm, w) = cv_loop L self ns (a, Some m, w2)" by simp
        then show ?thesis by (rule two)
      qed
    qed
  qed
  then show ?case
  proof cases
    case one
    from Cons.IH [of b' bm' w1] obtain js where
      "length js = length ns" "\<forall>j \<in> set js. 1 \<le> j"
      "map fst (fits (snd (snd (cv_loop L self ns (b', bm', w1)))))
         = map fst (fits w1) @ concat (map (\<lambda>(j, n). replicate j n) (zip js ns))" by blast
    with one j show ?thesis by (intro exI [of _ "j # js"]) simp
  next
    case two
    from Cons.IH [of b' bm' w2] obtain js where
      "length js = length ns" "\<forall>j \<in> set js. 1 \<le> j"
      "map fst (fits (snd (snd (cv_loop L self ns (b', bm', w2)))))
         = map fst (fits w2) @ concat (map (\<lambda>(j, n). replicate j n) (zip js ns))" by blast
    with two w2 show ?thesis by (intro exI [of _ "Suc j # js"]) simp
  qed
qed

lemma SelectorCV_select_fits:
  assumes "2 \<le> length (sequences self)"
  shows "\<exists>js. length js = length [min_n_components self .. max_n_components self]
     \<and> (\<forall>j \<in> set js. 1 \<le> j)
     \<and> map fst (fits (snd (SelectorCV_select L self w)))
         = map fst (fits w) @ concat (map (\<lambda>(j, n). replicate j n)
             (zip js [min_n_components self .. max_n_components self]))"
  using cv_loop_fits [OF assms, of "[min_n_components self .. max_n_components self]" L NegInf None w]
  by (cases "cv_loop L self [min_n_components self .. max_n_components self] (NegInf, None, w)")
    (simp add: SelectorCV_select_def)

text \<open>
  Claim C8, amended. A failure inside the \<^verbatim>\<open>try\<close> block of a candidate \<open>n\<close> of the
  BIC or the DIC sweep, and a failure in the fold loop of a candidate of the
  cross-validation sweep (the split, a training on a fold, a scoring of a
  held-out fold), leaves the best score and the best model as they were, and
  the sweep goes on with the remaining candidates. Every state count of the
  range has a training attempted: exactly one in the BIC and DIC sweeps, at
  least one in cross-validation when the word has two sequences or more. In
  cross-validation the unit is the candidate, not the fold: when a fold fails
  after earlier folds succeeded, the whole candidate fails. In the recogniser a
  word whose scoring of an item fails is left out of the item's table and the
  remaining words are scored.
\<close>

theorem failures_recovered_per_candidate:
  "(isl (fst (bic_try L self n w)) \<longrightarrow>
      bic_loop L self (n # ns) (b, bm, w) = bic_loop L self ns (b, bm, snd (bic_try L self n w)))
   \<and> (isl (fst (dic_try L self M n w)) \<longrightarrow>
      dic_loop L self M (n # ns) (b, bm, w) = dic_loop L self M ns (b, bm, snd (dic_try L self M n w)))
   \<and> (isl (fst (cv_try L self n w)) \<longrightarrow>
      cv_loop L self (n # ns) (b, bm, w) = cv_loop L self ns (b, bm, snd (cv_try L self n w)))
   \<and> (KFold (min (int (length (sequences self))) 3) = Inr k
        \<and> KFold_split k (length (sequences self)) = Inr (pre @ fd # post)
        \<and> cv_folds L self n pre (PyInt 0) w = (Inr sm, wm)
        \<and> isl (fst (cv_folds L self n [fd] sm wm)) \<longrightarrow>
      isl (fst (cv_try L self n w)))
   \<and> (getitem models word = Inr m \<and> score L m fs ls = None \<longrightarrow>
      score_words L models (word # rest) fs ls logLs = score_words L models rest fs ls logLs)
   \<and> map fst (fits (snd (SelectorBIC_select L self w)))
       = map fst (fits w) @ [min_n_components self .. max_n_components self]
   \<and> map fst (fits (snd (SelectorDIC_select L self w)))
       = map fst (fits w) @ [min_n_components self .. max_n_components self]
   \<and> (2 \<le> length (sequences self) \<longrightarrow>
        (\<exists>js. length js = length [min_n_components self .. max_n_components self]
           \<and> (\<forall>j \<in> set js. 1 \<le> j)
           \<and> map fst (fits (snd (SelectorCV_select L self w)))
               = map fst (fits w) @ concat (map (\<lambda>(j, n). replicate j n)
                   (zip js [min_n_components self .. max_n_components self]))))"
proof -
  have 1: "isl (fst (bic_try L self n w)) \<longrightarrow>
      bic_loop L self (n # ns) (b, bm, w) = bic_loop L self ns (b, bm, snd (bic_try L self n w))"
    by (cases "bic_try L self n w") (auto simp: isl_def)
  have 2: "isl (fst (dic_try L self M n w)) \<longrightarrow>
      dic_loop L self M (n # ns) (b, bm, w) = dic_loop L self M ns (b, bm, snd (dic_try L self M n w))"
    by (cases "dic_try L self M n w") (auto simp: isl_def)
  have 3: "isl (fst (cv_try L self n w)) \<longrightarrow>
      cv_loop L self (n # ns) (b, bm, w) = cv_loop L self ns (b, bm, snd (cv_try L self n w))"
    by (cases "cv_try L self n w") (auto simp: isl_def)
  have 4: "KFold (min (int (length (sequences self))) 3) = Inr k
        \<and> KFold_split k (length (sequences self)) = Inr (pre @ fd # post)
        \<and> cv_folds L self n pre (PyInt 0) w = (Inr sm, wm)
        \<and> isl (fst (cv_folds L self n [fd] sm wm)) \<longrightarrow>
      isl (fst (cv_try L self n w))"
    using cv_try_failing_fold by blast
  have 5: "getitem models word = Inr m \<and> score L m fs ls = None \<longrightarrow>
      score_words L models (word # rest) fs ls logLs = score_words L models rest fs ls logLs"
    by (simp add: model_score_def)
  have 6: "map fst (fits (snd (SelectorBIC_select L self w)))
       = map fst (fits w) @ [min_n_components self .. max_n_components self]"
    using bic_loop_fits [of L self "[min_n_components self .. max_n_components self]" PosInf None w]
    by (cases "bic_loop L self [min_n_components self .. max_n_components self] (PosInf, None, w)")
      (simp add: SelectorBIC_select_def)
  have 7: "map fst (fits (snd (SelectorDIC_select L self w)))
       = map fst (fits w) @ [min_n_components self .. max_n_components self]"
    using dic_loop_fits [of L self "int (length (hwords self))"
        "[min_n_components self .. max_n_components self]" NegInf None w]
    by (cases "dic_loop L self (int (length (hwords self)))
          [min_n_components self .. max_n_components self] (NegInf, None, w)")
      (simp add: SelectorDIC_select_def)
  have 8: "2 \<le> length (sequences self) \<longrightarrow>
        (\<exists>js. length js = length [min_n_components self .. max_n_components self]
           \<and> (\<forall>j \<in> set js. 1 \<le> j)
           \<and> map fst (fits (snd (SelectorCV_select L self w)))
               = map fst (fits w) @ concat (map (\<lambda>(j, n). replicate j n)
                   (zip js [min_n_components self .. max_n_components self])))"
    using SelectorCV_select_fits [of self L w] by blast
  from 1 2 3 4 5 6 7 8 show ?thesis
    by (intro conjI)
qed

lemma uneven_split:
  "KFold (min (int (length (sequences uneven))) 3) = Inr 3"
  "KFold_split 3 (length (sequences uneven)) = Inr [([1, 2], [0]), ([0, 2], [1]), ([0, 1], [2])]"
  by (simp_all add: KFold_def KFold_split_def fold_sizes_def uneven_def upt_rec)

lemma uneven_folds:
  "fst (cv_folds toy_lib uneven 4 [([1, 2], [0])] (PyInt 0) w) = Inr (NpFloat 0)"
  "fst (cv_folds toy_lib uneven 4 [([0, 2], [1])] s w) = Inl ScoreError"
  "fst (cv_folds toy_lib uneven 4 [([0, 1], [2])] (PyInt 0) w) = Inr (NpFloat 0)"
  by (simp_all add: uneven_def combine_sequences_def GaussianHMM_fit_def model_score_def
      toy_lib_def)

lemma uneven_cv_try: "fst (cv_try toy_lib uneven 4 w) = Inl ScoreError"
  by (simp add: cv_try_def uneven_split Let_def)
    (simp add: uneven_def combine_sequences_def GaussianHMM_fit_def model_score_def toy_lib_def)

lemma uneven_select: "fst (SelectorCV_select toy_lib uneven w) = None"
proof -
  obtain w' where "cv_try toy_lib uneven 4 w = (Inl ScoreError, w')"
    using uneven_cv_try [of w] by (cases "cv_try toy_lib uneven 4 w") simp
  moreover have "min_n_components uneven = 4" "max_n_components uneven = 4"
    by (simp_all add: uneven_def)
  ultimately show ?thesis by (simp add: SelectorCV_select_def)
qed

theorem failures_recovered_per_candidate_witness:
  "isl (fst (bic_try toy_lib cat 10 w0))
   \<and> bic_loop toy_lib cat [10] (NegInf, None, w0)
       = bic_loop toy_lib cat [] (NegInf, None, snd (bic_try toy_lib cat 10 w0))
   \<and> isl (fst (dic_try toy_lib cat 3 10 w0))
   \<and> dic_loop toy_lib cat 3 [10] (NegInf, None, w0)
       = dic_loop toy_lib cat 3 [] (NegInf, None, snd (dic_try toy_lib cat 3 10 w0))
   \<and> isl (fst (cv_try toy_lib cat 10 w0))
   \<and> cv_loop toy_lib cat [10] (NegInf, None, w0)
       = cv_loop toy_lib cat [] (NegInf, None, snd (cv_try toy_lib cat 10 w0))
   \<and> isl (fst (cv_folds toy_lib uneven 4 [([0, 2], [1])] (NpFloat 0)
               (snd (cv_folds toy_lib uneven 4 [([1, 2], [0])] (PyInt 0) w0))))
   \<and> isl (fst (cv_try toy_lib uneven 4 w0))
   \<and> score toy_lib (0, 5) (fst item_three) (snd item_three) = None
   \<and> score_words toy_lib toy_models [''BIRD''] (fst item_three) (snd item_three)
         [(''CAT'', - 100), (''DOG'', 0)]
       = score_words toy_lib toy_models [] (fst item_three) (snd item_three)
         [(''CAT'', - 100), (''DOG'', 0)]
   \<and> map fst (fits (snd (SelectorBIC_select toy_lib cat w0))) = [2..10]
   \<and> 2 \<le> length (sequences cat)
   \<and> (\<exists>js. length js = length [2..10::int] \<and> (\<forall>j \<in> set js. 1 \<le> j)
         \<and> map fst (fits (snd (SelectorCV_select toy_lib cat w0)))
             = map fst (fits w0) @ concat (map (\<lambda>(j, n). replicate j n) (zip js [2..10])))"
proof -
  let ?wm = "snd (cv_folds toy_lib uneven 4 [([1, 2], [0])] (PyInt 0) w0)"
  note A = failures_recovered_per_candidate [where L = toy_lib and self = cat and n = 10
      and w = w0 and ns = "[]" and b = NegInf and bm = None and M = 3 and models = toy_models
      and word = "''BIRD''" and m = "(0, 5)" and fs = "fst item_three" and ls = "snd item_three"
      and rest = "[]" and logLs = "[(''CAT'', - 100), (''DOG'', 0)]"]
  note B = failures_recovered_per_candidate [where L = toy_lib and self = uneven and n = 4
      and w = w0 and k = 3 and pre = "[([1, 2], [0])]" and fd = "([0, 2], [1])"
      and post = "[([0, 1], [2])]" and sm = "NpFloat 0" and wm = ?wm]
  have h1: "isl (fst (bic_try toy_lib cat 10 w0))" by (simp add: toy_bic_try)
  have h2: "isl (fst (dic_try toy_lib cat 3 10 w0))" by (simp add: toy_dic_try)
  have h3: "isl (fst (cv_try toy_lib cat 10 w0))" by (simp add: cat_cv_try)
  have h4: "cv_folds toy_lib uneven 4 [([1, 2], [0])] (PyInt 0) w0 = (Inr (NpFloat 0), ?wm)"
    using uneven_folds(1) [of w0] by (simp add: prod_eq_iff)
  have h5: "isl (fst (cv_folds toy_lib uneven 4 [([0, 2], [1])] (NpFloat 0) ?wm))"
    by (simp only: uneven_folds(2) sum.disc)
  have h6: "getitem toy_models ''BIRD'' = Inr (0, 5)"
    "score toy_lib (0, 5) (fst item_three) (snd item_three) = None"
    by (simp_all add: getitem_def toy_models_def toy_lib_def item_three_def)
  from B uneven_split h4 h5 have c: "isl (fst (cv_try toy_lib uneven 4 w0))" by simp
  have h7: "2 \<le> length (sequences cat)" by (simp add: cat_def cat_sequences_def)
  from A h1 h2 h3 h6 h7 have
    "bic_loop toy_lib cat [10] (NegInf, None, w0)
       = bic_loop toy_lib cat [] (NegInf, None, snd (bic_try toy_lib cat 10 w0))"
    "dic_loop toy_lib cat 3 [10] (NegInf, None, w0)
       = dic_loop toy_lib cat 3 [] (NegInf, None, snd (dic_try toy_lib cat 3 10 w0))"
    "cv_loop toy_lib cat [10] (NegInf, None, w0)
       = cv_loop toy_lib cat [] (NegInf, None, snd (cv_try toy_lib cat 10 w0))"
    "score_words toy_lib toy_models [''BIRD''] (fst item_three) (snd item_three)
         [(''CAT'', - 100), (''DOG'', 0)]
       = score_words toy_lib toy_models [] (fst item_three) (snd item_three)
         [(''CAT'', - 100), (''DOG'', 0)]"
    "map fst (fits (snd (SelectorBIC_select toy_lib cat w0))) = map fst (fits w0) @ [2..10]"
    "\<exists>js. length js = length [2..10::int] \<and> (\<forall>j \<in> set js. 1 \<le> j)
         \<and> map fst (fits (snd (SelectorCV_select toy_lib cat w0)))
             = map fst (fits w0) @ concat (map (\<lambda>(j, n). replicate j n) (zip js [2..10]))"
    by (simp_all only: simp_thms cat_range)
  moreover have "map fst (fits w0) @ [2..10] = [2..10]" by (simp add: w0_def)
  ultimately show ?thesis
    using h1 h2 h3 h5 h6(2) h7 c by (simp only: simp_thms)
qed

text \<open>
  The claim as the specification words it has a failure on one fold leave the
  other folds' contributions in place. Here, at four states, the first and the
  third fold each train and score, the second fold's scoring raises, and the
  candidate is dropped as a whole: nothing is selected.
\<close>

theorem fold_failure_discards_candidate:
  "KFold_split 3 (length (sequences uneven)) = Inr [([1, 2], [0]), ([0, 2], [1]), ([0, 1], [2])]
   \<and> fst (cv_folds toy_lib uneven 4 [([1, 2], [0])] (PyInt 0) w0) = Inr (NpFloat 0)
   \<and> fst (cv_folds toy_lib uneven 4 [([0, 2], [1])] (PyInt 0) w0) = Inl ScoreError
   \<and> fst (cv_folds toy_lib uneven 4 [([0, 1], [2])] (PyInt 0) w0) = Inr (NpFloat 0)
   \<and> fst (cv_try toy_lib uneven 4 w0) = Inl ScoreError
   \<and> fst (SelectorCV_select toy_lib uneven w0) = None"
  by (intro conjI uneven_split uneven_folds uneven_cv_try uneven_select)

end
